theory Spec2Isabelle
  imports Complex_Main "HOL-Library.Multiset" "HOL-Library.Sublist"
begin

section \<open>JavaScript values and the data model\<close>

text \<open>
  The participant list comes from \<^verbatim>\<open>config.js\<close>, which is not part of the sources; the
  script reads four fields of a participant: \<^verbatim>\<open>name\<close>, \<^verbatim>\<open>email\<close>, \<^verbatim>\<open>uid\<close> and
  \<^verbatim>\<open>group\<close>. The unique id and the group label are compared with \<^verbatim>\<open>===\<close> and
  the group label is tested for truthiness, so both are primitive JavaScript values:
  \<^verbatim>\<open>undefined\<close> (an absent field), \<^verbatim>\<open>null\<close>, a boolean, an integral number or a
  string. On these values \<^verbatim>\<open>===\<close> is equality of the datatype (numbers are the
  integers, so there is no NaN).
\<close>

datatype jsval = JUndefined | JNull | JBool bool | JNum int | JStr string

text \<open>ToBoolean: what \<^verbatim>\<open>a && b\<close> and \<^verbatim>\<open>if (a)\<close> test.\<close>

fun truthy :: "jsval \<Rightarrow> bool" where
  "truthy JUndefined = False"
| "truthy JNull = False"
| "truthy (JBool b) = b"
| "truthy (JNum n) = (n \<noteq> 0)"
| "truthy (JStr s) = (s \<noteq> [])"

text \<open>Decimal digits of a natural number, as a template literal prints a counter.\<close>

function show_nat :: "nat \<Rightarrow> string" where
  "show_nat n = (if n < 10 then [''0123456789'' ! n]
                 else show_nat (n div 10) @ [''0123456789'' ! (n mod 10)])"
  by pat_completeness auto
termination
  by (relation "measure (\<lambda>n. n)") auto

declare show_nat.simps [simp del]

text \<open>ToString, as a template literal \<^verbatim>\<open>${v}\<close> applies it.\<close>

fun to_string :: "jsval \<Rightarrow> string" where
  "to_string JUndefined = ''undefined''"
| "to_string JNull = ''null''"
| "to_string (JBool b) = (if b then ''true'' else ''false'')"
| "to_string (JNum n) = (if n < 0 then ''-'' @ show_nat (nat (- n)) else show_nat (nat n))"
| "to_string (JStr s) = s"

record participant =
  name :: string
  email :: string
  uid :: jsval
  group_label :: jsval

record assignment =
  giver :: participant
  receiver :: participant

record mail_options =
  mail_from :: string
  mail_to :: string
  subject :: string
  text_body :: string
  html :: string

text \<open>
  What the run does to the outside world, in order: a line on the console
  (\<^verbatim>\<open>console.log\<close>, \<^verbatim>\<open>console.error\<close>), the construction of the mail transport
  (\<^verbatim>\<open>nodemailer.createTransport\<close>, with the two credentials) and a call of
  \<^verbatim>\<open>transporter.sendMail\<close>.
\<close>

datatype event =
    ConsoleLog string
  | ConsoleError string
  | CreateTransport jsval jsval
  | SendMail mail_options

text \<open>
  The source file is UTF-8 and strings are modelled as its bytes; the five pictographs
  of the messages are these byte sequences.
\<close>

definition emoji_santa :: string where
  "emoji_santa = [CHR 0xF0, CHR 0x9F, CHR 0x8E, CHR 0x85]"

definition emoji_tree :: string where
  "emoji_tree = [CHR 0xF0, CHR 0x9F, CHR 0x8E, CHR 0x84]"

definition emoji_robot :: string where
  "emoji_robot = [CHR 0xF0, CHR 0x9F, CHR 0xA4, CHR 0x96]"

definition emoji_check :: string where
  "emoji_check = [CHR 0xE2, CHR 0x9C, CHR 0x85]"

definition emoji_cross :: string where
  "emoji_cross = [CHR 0xE2, CHR 0x9D, CHR 0x8C]"

section \<open>Command-line flags\<close>

text \<open>
  \<^verbatim>\<open>args\<close> is \<^verbatim>\<open>process.argv.slice(2)\<close>; \<^verbatim>\<open>args.includes(x)\<close> is membership.
\<close>

definition DRY_RUN :: "string list \<Rightarrow> bool" where
  "DRY_RUN args = (if ''--dry-run'' \<in> set args \<or> ''-d'' \<in> set args then True else False)"

definition groups_on :: "string list \<Rightarrow> bool" where
  "groups_on args = (if ''--groups'' \<in> set args \<or> ''-g'' \<in> set args then True else False)"

definition help_requested :: "string list \<Rightarrow> bool" where
  "help_requested args = (''--help'' \<in> set args \<or> ''-h'' \<in> set args)"

definition help_text :: string where
  \<open>help_text =
     ''\<newline>''
   @ ''  '' @ emoji_santa @ '' Secret Santa Script '' @ emoji_santa @ ''\<newline>''
   @ ''\<newline>''
   @ ''  This script runs a Secret Santa draw and emails the results to participants.\<newline>''
   @ ''\<newline>''
   @ ''  Usage:\<newline>''
   @ ''    node santa.js [options]\<newline>''
   @ ''\<newline>''
   @ ''  Options:\<newline>''
   @ ''    -d, --dry-run       Run the script without sending any emails.\<newline>''
   @ ''                        (Prints assignments to the console)\<newline>''
   @ ''    \<newline>''
   @ ''    -g, --group-check   Enable the group exclusion rule.\<newline>''
   @ ''                        (Prevents people in the same 'group' from\<newline>''
   @ ''                        being assigned to each other)\<newline>''
   @ ''    \<newline>''
   @ ''    -h, --help          Show this help menu.\<newline>''
   @ ''  ''\<close>

section \<open>The shuffle\<close>

text \<open>
  \<^verbatim>\<open>Math.random()\<close> is the one source of randomness. The model takes the sequence of
  the values it returns as a parameter \<open>rnd\<close> (the value of call number \<open>k\<close> is
  \<open>rnd k\<close>) and counts the calls. Its contract is a number in \<open>[0, 1)\<close>; doubles are
  abstracted to reals.
\<close>

definition unit_interval :: "(nat \<Rightarrow> real) \<Rightarrow> bool" where
  "unit_interval rnd = (\<forall>k. 0 \<le> rnd k \<and> rnd k < 1)"

text \<open>\<^verbatim>\<open>Math.floor(Math.random() * (i + 1))\<close>, for the value \<open>r\<close> of the call.\<close>

definition random_index :: "real \<Rightarrow> nat \<Rightarrow> nat" where
  "random_index r i = nat \<lfloor>r * real (i + 1)\<rfloor>"

text \<open>
  \<^verbatim>\<open>[array[i], array[j]] = [array[j], array[i]]\<close>: both reads come first, then the
  write at \<open>i\<close>, then the write at \<open>j\<close>.
\<close>

definition swap :: "'a list \<Rightarrow> nat \<Rightarrow> nat \<Rightarrow> 'a list" where
  "swap array i j = array[i := array ! j, j := array ! i]"

text \<open>
  The loop \<^verbatim>\<open>for (let i = array.length - 1; i > 0; i--)\<close> from a given \<open>i\<close>; it
  returns the array and the number of calls of \<^verbatim>\<open>Math.random\<close> made so far. On the
  empty array JavaScript starts at \<open>-1\<close> and the natural number subtraction at \<open>0\<close>:
  neither runs the body.
\<close>

fun shuffle_from :: "nat \<Rightarrow> 'a list \<Rightarrow> (nat \<Rightarrow> real) \<Rightarrow> nat \<Rightarrow> 'a list \<times> nat" where
  "shuffle_from 0 array rnd k = (array, k)"
| "shuffle_from (Suc i') array rnd k =
     (let i = Suc i';
          j = random_index (rnd k) i
      in shuffle_from i' (swap array i j) rnd (Suc k))"

definition shuffle :: "'a list \<Rightarrow> (nat \<Rightarrow> real) \<Rightarrow> nat \<Rightarrow> 'a list \<times> nat" where
  "shuffle array rnd k = shuffle_from (length array - 1) array rnd k"

section \<open>The matcher\<close>

text \<open>
  The inner \<^verbatim>\<open>for\<close> loop of \<^verbatim>\<open>createAssignments\<close> from index \<open>i\<close>: the value it
  leaves in \<^verbatim>\<open>hasInvalidAssignment\<close> (set to false before the loop) and the lines it
  prints. A \<^verbatim>\<open>break\<close> ends the recursion.
\<close>

function check_from ::
  "bool \<Rightarrow> bool \<Rightarrow> participant list \<Rightarrow> participant list \<Rightarrow> nat \<Rightarrow> bool \<times> event list" where
  \<open>check_from dry_run grp givers receivers i =
     (if i < length givers then
        (let g = givers ! i;
             r = receivers ! i;
             checking = (if dry_run
                         then [ConsoleLog (''Checking assignment: '' @ name g @ '' -> '' @ name r)]
                         else [])
         in if uid g = uid r then
              (True, checking @ [ConsoleLog (''...Self-assignment found for '' @ name g
                                   @ ''. Re-shuffling entire list.'')])
            else if grp \<and> truthy (group_label g) \<and> truthy (group_label r)
                      \<and> group_label g = group_label r then
              (True, checking @ [ConsoleLog (''...Group conflict: '' @ name g @ '' (''
                                   @ to_string (group_label g) @ '') can't get '' @ name r
                                   @ '' ('' @ to_string (group_label r) @ ''). Re-shuffling.'')])
            else (case check_from dry_run grp givers receivers (i + 1) of
                    (has, lines) \<Rightarrow> (has, checking @ lines)))
      else (False, []))\<close>
  by pat_completeness auto
termination
  by (relation "measure (\<lambda>(dry_run, grp, givers, receivers, i). length givers - i)") auto

declare check_from.simps [simp del]

text \<open>The variables of \<^verbatim>\<open>createAssignments\<close> that the retry loop changes.\<close>

record loop_state =
  receivers :: "participant list"
  hasInvalidAssignment :: bool
  attempts :: nat
  calls :: nat
  out :: "event list"

text \<open>One pass through the body of \<^verbatim>\<open>while (hasInvalidAssignment)\<close>.\<close>

definition loop_body ::
  "bool \<Rightarrow> bool \<Rightarrow> participant list \<Rightarrow> (nat \<Rightarrow> real) \<Rightarrow> loop_state \<Rightarrow> loop_state" where
  "loop_body dry_run grp participants rnd s =
     (let n = attempts s + 1;
          attempt_line = ConsoleLog (''Attempt '' @ show_nat n @ '': Shuffling receivers...'');
          (shuffled, k) = shuffle participants rnd (calls s);
          (has, lines) = check_from dry_run grp participants shuffled 0
      in \<lparr>receivers = shuffled, hasInvalidAssignment = has, attempts = n, calls = k,
          out = out s @ [attempt_line] @ lines\<rparr>)"

text \<open>
  The retry loop has no bound on the number of attempts, so it is a partial function:
  \<open>None\<close> is a loop that never ends.
\<close>

partial_function (option) retry_loop ::
  "bool \<Rightarrow> bool \<Rightarrow> participant list \<Rightarrow> (nat \<Rightarrow> real) \<Rightarrow> loop_state \<Rightarrow> loop_state option" where
  "retry_loop dry_run grp participants rnd s =
     (if hasInvalidAssignment s
      then retry_loop dry_run grp participants rnd (loop_body dry_run grp participants rnd s)
      else Some s)"

definition initial_state :: "participant list \<Rightarrow> loop_state" where
  "initial_state participants =
     \<lparr>receivers = participants, hasInvalidAssignment = True, attempts = 0, calls = 0,
      out = [ConsoleLog ''Creating assignments...'']\<rparr>"

text \<open>
  \<^verbatim>\<open>createAssignments\<close>: the assignments it returns and the lines it printed, or
  \<open>None\<close> when the retry loop never ends. \<open>givers\<close> is a copy of the participant
  list that is never written.
\<close>

definition createAssignments ::
  "bool \<Rightarrow> bool \<Rightarrow> participant list \<Rightarrow> (nat \<Rightarrow> real) \<Rightarrow> (assignment list \<times> event list) option" where
  "createAssignments dry_run grp participants rnd =
     (case retry_loop dry_run grp participants rnd (initial_state participants) of
        None \<Rightarrow> None
      | Some s \<Rightarrow>
          Some (map (\<lambda>i. \<lparr>giver = participants ! i, receiver = receivers s ! i\<rparr>)
                    [0..<length participants],
                out s @ [ConsoleLog (''Assignments created successfully after ''
                                       @ show_nat (attempts s) @ '' attempt(s).'')]))"

text \<open>
  The two tests of the inner loop on one pair: rule 1 (the same \<^verbatim>\<open>uid\<close>) and, with
  \<^verbatim>\<open>groups_on\<close>, rule 2 (both group labels truthy and equal).
\<close>

definition violation :: "bool \<Rightarrow> participant \<Rightarrow> participant \<Rightarrow> bool" where
  "violation grp g r =
     (uid g = uid r
      \<or> (grp \<and> truthy (group_label g) \<and> truthy (group_label r)
          \<and> group_label g = group_label r))"

text \<open>A receiver list with no violation at any index of the giver list.\<close>

definition valid_candidate :: "bool \<Rightarrow> participant list \<Rightarrow> participant list \<Rightarrow> bool" where
  "valid_candidate grp givers rs = (\<forall>i<length givers. \<not> violation grp (givers ! i) (rs ! i))"

text \<open>
  The receiver list of attempt \<open>n\<close> (counted from 0): \<^verbatim>\<open>receivers = [...participants];
  shuffle(receivers)\<close> with the next \<open>length participants - 1\<close> values of
  \<^verbatim>\<open>Math.random\<close>.
\<close>

definition candidate :: "participant list \<Rightarrow> (nat \<Rightarrow> real) \<Rightarrow> nat \<Rightarrow> participant list" where
  "candidate participants rnd n = fst (shuffle participants rnd (n * (length participants - 1)))"

section \<open>The notifier\<close>

text \<open>
  \<^verbatim>\<open>transporter.sendMail\<close> belongs to nodemailer. The model takes its outcome as a
  parameter: call number \<open>n\<close> with given options either resolves or rejects with an
  \<^verbatim>\<open>Error\<close> whose \<^verbatim>\<open>message\<close> is a string, which is what nodemailer rejects with. A
  promise that never settles, and a rejection with \<^verbatim>\<open>null\<close> or \<^verbatim>\<open>undefined\<close> (reading
  \<^verbatim>\<open>error.message\<close> would throw inside the \<^verbatim>\<open>catch\<close> block), are outside the model.
\<close>

datatype send_result = Resolved | Rejected string

definition mailOptions :: "jsval \<Rightarrow> assignment \<Rightarrow> mail_options" where
  \<open>mailOptions YOUR_EMAIL a =
     (let g = giver a; r = receiver a in
      \<lparr>mail_from = ''"Secret Santa Bot" <'' @ to_string YOUR_EMAIL @ ''>'',
       mail_to = email g,
       subject = ''Your Secret Santa Assignment is Here! '' @ emoji_santa,
       text_body =
           ''Hi '' @ name g @ ''!\<newline>''
         @ ''\<newline>''
         @ ''You are the Secret Santa for...\<newline>''
         @ ''\<newline>''
         @ ''** '' @ name r @ '' **\<newline>''
         @ ''\<newline>''
         @ ''Shhhh, it's a secret!\<newline>''
         @ ''\<newline>''
         @ ''Happy holidays!'',
       html =
           ''\<newline>''
         @ ''        <div style="font-family: Arial, sans-serif; line-height: 1.6;">\<newline>''
         @ ''          <h2>Hi '' @ name g @ ''!</h2>\<newline>''
         @ ''          <p>Your Secret Santa assignment is here! '' @ emoji_tree @ ''</p>\<newline>''
         @ ''          <p>You are the Secret Santa for...</p>\<newline>''
         @ ''          <div style="font-size: 24px; font-weight: bold; margin: 20px 0; padding: 10px; background-color: #f4f4f4; border-radius: 5px;">\<newline>''
         @ ''            '' @ name r @ ''\<newline>''
         @ ''          </div>\<newline>''
         @ ''          <p>Shhhh, it's a secret!</p>\<newline>''
         @ ''          <p>Happy holidays,<br>The Secret Santa Bot '' @ emoji_robot @ ''</p>\<newline>''
         @ ''          <p>-P.S. This probably isn't a scam but if you want to be sure respond to this email with your SSN and/or bank PIN.  Please and thank you!</p>\<newline>''
         @ ''        </div>\<newline>''
         @ ''      ''\<rparr>)\<close>

text \<open>
  The \<^verbatim>\<open>for ... of\<close> loop of \<^verbatim>\<open>sendEmails\<close>; \<open>n\<close> counts the calls of
  \<^verbatim>\<open>sendMail\<close> made so far. Each send is awaited before the next iteration starts.
\<close>

fun send_loop ::
  "bool \<Rightarrow> jsval \<Rightarrow> (nat \<Rightarrow> mail_options \<Rightarrow> send_result) \<Rightarrow> nat \<Rightarrow> assignment list \<Rightarrow> event list" where
  \<open>send_loop dry_run YOUR_EMAIL sendMail n [] = []\<close>
| \<open>send_loop dry_run YOUR_EMAIL sendMail n (a # rest) =
     (let g = giver a; r = receiver a; opts = mailOptions YOUR_EMAIL a in
      if dry_run then
        ConsoleLog (''(DRY RUN) Would email '' @ name g @ '' ('' @ email g
                      @ ''): "You got '' @ name r @ ''"'')
        # send_loop dry_run YOUR_EMAIL sendMail n rest
      else
        (case sendMail n opts of
           Resolved \<Rightarrow>
             SendMail opts
             # ConsoleLog (emoji_check @ '' Email sent successfully to '' @ name g)
             # send_loop dry_run YOUR_EMAIL sendMail (Suc n) rest
         | Rejected message \<Rightarrow>
             SendMail opts
             # ConsoleError (emoji_cross @ '' Error sending email to '' @ name g @ '': '' @ message)
             # send_loop dry_run YOUR_EMAIL sendMail (Suc n) rest))\<close>

definition sendEmails ::
  "bool \<Rightarrow> jsval \<Rightarrow> jsval \<Rightarrow> (nat \<Rightarrow> mail_options \<Rightarrow> send_result) \<Rightarrow> assignment list \<Rightarrow> event list" where
  "sendEmails dry_run YOUR_EMAIL YOUR_APP_PASSWORD sendMail assignments =
     CreateTransport YOUR_EMAIL YOUR_APP_PASSWORD
     # ConsoleLog ''\<newline>--- Sending Emails ---''
     # send_loop dry_run YOUR_EMAIL sendMail 0 assignments"

text \<open>The calls of \<^verbatim>\<open>transporter.sendMail\<close> in a trace, in order.\<close>

fun sent_mails :: "event list \<Rightarrow> mail_options list" where
  "sent_mails [] = []"
| "sent_mails (SendMail opts # es) = opts # sent_mails es"
| "sent_mails (ConsoleLog l # es) = sent_mails es"
| "sent_mails (ConsoleError l # es) = sent_mails es"
| "sent_mails (CreateTransport u p # es) = sent_mails es"

section \<open>The entry point\<close>

text \<open>
  \<^verbatim>\<open>main\<close>: everything the run does, in order, or \<open>None\<close> when the matcher never
  returns.
\<close>

definition main ::
  "bool \<Rightarrow> bool \<Rightarrow> jsval \<Rightarrow> jsval \<Rightarrow> participant list \<Rightarrow> (nat \<Rightarrow> real)
     \<Rightarrow> (nat \<Rightarrow> mail_options \<Rightarrow> send_result) \<Rightarrow> event list option" where
  "main dry_run grp YOUR_EMAIL YOUR_APP_PASSWORD participants rnd sendMail =
     (if length participants < 2 then
        Some [ConsoleError ''Error: You need at least 2 participants for a Secret Santa.'']
      else
        (let banner =
               (if dry_run then
                  [ConsoleLog ''******************************'',
                   ConsoleLog ''* RUNNING IN DRY MODE    *'',
                   ConsoleLog ''* No emails will be sent.   *'',
                   ConsoleLog ''******************************\<newline>'']
                else [])
         in case createAssignments dry_run grp participants rnd of
              None \<Rightarrow> None
            | Some (assignments, lines) \<Rightarrow>
                Some (banner @ lines
                      @ sendEmails dry_run YOUR_EMAIL YOUR_APP_PASSWORD sendMail assignments
                      @ [ConsoleLog ''\<newline>All done!''])))"

text \<open>
  The script from its first line: with \<^verbatim>\<open>--help\<close> or \<^verbatim>\<open>-h\<close> it prints the usage
  and exits before \<^verbatim>\<open>main\<close> is called.
\<close>

definition script ::
  "string list \<Rightarrow> jsval \<Rightarrow> jsval \<Rightarrow> participant list \<Rightarrow> (nat \<Rightarrow> real)
     \<Rightarrow> (nat \<Rightarrow> mail_options \<Rightarrow> send_result) \<Rightarrow> event list option" where
  "script args YOUR_EMAIL YOUR_APP_PASSWORD participants rnd sendMail =
     (if help_requested args then Some [ConsoleLog help_text]
      else main (DRY_RUN args) (groups_on args) YOUR_EMAIL YOUR_APP_PASSWORD
             participants rnd sendMail)"

section \<open>The shuffle under uniform draws\<close>

text \<open>
  The shuffle under the assumption that each draw
  \<^verbatim>\<open>j = Math.floor(Math.random() * (i + 1))\<close> is uniform on \<open>0..i\<close> and that the draws
  are independent: the loop of \<^verbatim>\<open>shuffle\<close> from index \<open>i\<close>, run on every value of
  \<open>j\<close> with probability \<open>1 / (i + 1)\<close> each. The result lists each sequence of draws
  with the array it leaves and the probability of the sequence.
\<close>

fun shuffle_distribution_from :: "nat \<Rightarrow> 'a list \<Rightarrow> ('a list \<times> real) list" where
  "shuffle_distribution_from 0 array = [(array, 1)]"
| "shuffle_distribution_from (Suc i') array =
     (let i = Suc i' in
      concat (map (\<lambda>j. map (\<lambda>(ys, p). (ys, p / real (i + 1)))
                            (shuffle_distribution_from i' (swap array i j)))
                  [0..<i + 1]))"

definition shuffle_distribution :: "'a list \<Rightarrow> ('a list \<times> real) list" where
  "shuffle_distribution array = shuffle_distribution_from (length array - 1) array"

text \<open>The probability of an outcome: the sum over the draw sequences that end in it.\<close>

definition probability :: "('a \<times> real) list \<Rightarrow> 'a \<Rightarrow> real" where
  "probability d x = sum_list (map snd (filter (\<lambda>e. fst e = x) d))"

text \<open>
  The loop of \<^verbatim>\<open>shuffle\<close> from index \<open>i\<close> with the values of \<open>j\<close> given: the head of
  the list is the draw at \<open>i\<close>, the next one the draw at \<open>i - 1\<close>, and so on.
\<close>

fun shuffle_with_draws :: "nat \<Rightarrow> 'a list \<Rightarrow> nat list \<Rightarrow> 'a list" where
  "shuffle_with_draws 0 array js = array"
| "shuffle_with_draws (Suc i') array [] = array"
| "shuffle_with_draws (Suc i') array (j # js) =
     (let i = Suc i' in shuffle_with_draws i' (swap array i j) js)"

text \<open>
  The values of \<open>j\<close> that the loop from index \<open>i\<close> computes when its first call of
  \<^verbatim>\<open>Math.random\<close> is call number \<open>k\<close>.
\<close>

definition draws :: "(nat \<Rightarrow> real) \<Rightarrow> nat \<Rightarrow> nat \<Rightarrow> nat list" where
  "draws rnd k i = map (\<lambda>m. random_index (rnd (k + m)) (i - m)) [0..<i]"

text \<open>Every sequence of draws of the loop from index \<open>i\<close>: \<open>j\<close> in \<open>0..i\<close> at \<open>i\<close>.\<close>

fun draw_sequences :: "nat \<Rightarrow> nat list list" where
  "draw_sequences 0 = [[]]"
| "draw_sequences (Suc i') =
     (let i = Suc i' in
      concat (map (\<lambda>j. map (\<lambda>js. j # js) (draw_sequences i')) [0..<i + 1]))"

section \<open>The retry loop under uniform draws\<close>



section \<open>Rejection sampling, as specified\<close>

text \<open>
  The reference the retry loop is compared with, in the words of the specification: a
  candidate has zero violations when at no index the giver and the receiver are a
  self-match or, with group exclusion enforced, a same-group pairing (both group labels
  present, read as truthy, and equal); rejection sampling accepts the first candidate
  drawn that the test accepts, and draws for ever when there is none.
\<close>

definition zero_violations :: "bool \<Rightarrow> participant list \<Rightarrow> participant list \<Rightarrow> bool" where
  "zero_violations enforceGroupExclusion givers rs =
     (\<forall>i<length givers.
        uid (givers ! i) \<noteq> uid (rs ! i)
        \<and> (enforceGroupExclusion \<longrightarrow>
             \<not> (truthy (group_label (givers ! i)) \<and> truthy (group_label (rs ! i))
                \<and> group_label (givers ! i) = group_label (rs ! i))))"

definition reference_rejection_sampling :: "('a \<Rightarrow> bool) \<Rightarrow> (nat \<Rightarrow> 'a) \<Rightarrow> 'a option" where
  "reference_rejection_sampling accept draw =
     (if \<exists>n. accept (draw n) then Some (draw (LEAST n. accept (draw n))) else None)"

section \<open>Example data\<close>

text \<open>
  Two participants in different groups, and a random source whose every value is
  \<open>0\<close>: each draw is then index \<open>0\<close>, which rotates the array by one place.
\<close>

definition alice :: participant where
  "alice = \<lparr>name = ''Alice'', email = ''alice@example.com'', uid = JNum 1, group_label = JStr ''red''\<rparr>"

definition bob :: participant where
  "bob = \<lparr>name = ''Bob'', email = ''bob@example.com'', uid = JNum 2, group_label = JStr ''blue''\<rparr>"

definition zero_source :: "nat \<Rightarrow> real" where
  "zero_source k = 0"

text \<open>Two participants who share a group, and a transport that never fails.\<close>

definition carol :: participant where
  "carol = \<lparr>name = ''Carol'', email = ''carol@example.com'', uid = JNum 3, group_label = JStr ''green''\<rparr>"

definition dave :: participant where
  "dave = \<lparr>name = ''Dave'', email = ''dave@example.com'', uid = JNum 4, group_label = JStr ''green''\<rparr>"

definition always_resolves :: "nat \<Rightarrow> mail_options \<Rightarrow> send_result" where
  "always_resolves n opts = Resolved"

text \<open>
  A random source whose first value is \<open>3/4\<close> and every later value \<open>0\<close>: on two
  participants the first shuffle draws index 1 and leaves the list as it is, the second
  draws index 0 and swaps it.
\<close>

definition retry_source :: "nat \<Rightarrow> real" where
  "retry_source k = (if k = 0 then 3 / 4 else 0)"

text \<open>Two participants whose group label is the empty string.\<close>

definition erin :: participant where
  "erin = \<lparr>name = ''Erin'', email = ''erin@example.com'', uid = JNum 5, group_label = JStr ''''\<rparr>"

definition frank :: participant where
  "frank = \<lparr>name = ''Frank'', email = ''frank@example.com'', uid = JNum 6, group_label = JStr ''''\<rparr>"

text \<open>A transport whose first call fails and whose later calls succeed.\<close>

definition fails_first :: "nat \<Rightarrow> mail_options \<Rightarrow> send_result" where
  "fails_first n opts = (if n = 0 then Rejected ''Connection timeout'' else Resolved)"

text \<open>
  A random source whose values are \<open>1/2, 3/4, 0, 1/4, 0, 1/2\<close> and then \<open>0\<close>. On four
  elements the first shuffle draws \<open>j = 2, 2, 0\<close> and swaps the first two and the last
  two; the second draws \<open>j = 1, 0, 1\<close> and swaps the two halves.
\<close>

definition group_source :: "nat \<Rightarrow> real" where
  "group_source k =
     (if k = 0 then 1 / 2 else if k = 1 then 3 / 4 else if k = 3 then 1 / 4
      else if k = 5 then 1 / 2 else 0)"



section \<open>Properties of the shuffle and of the retry loop\<close>

lemma random_index_le: "0 \<le> r \<Longrightarrow> r < 1 \<Longrightarrow> random_index r i \<le> i"
proof -
  assume r: "0 \<le> r" "r < 1"
  have "r * real (i + 1) < real (i + 1)" using r by simp
  then have "\<lfloor>r * real (i + 1)\<rfloor> < int (i + 1)" by (simp add: floor_less_iff)
  then show ?thesis by (simp add: random_index_def)
qed

lemma length_swap [simp]: "length (swap a i j) = length a"
  by (simp add: swap_def)

lemma mset_swap_array: "i < length a \<Longrightarrow> j < length a \<Longrightarrow> mset (swap a i j) = mset a"
  unfolding swap_def by (simp add: mset_swap)

lemma length_shuffle_from [simp]: "length (fst (shuffle_from i a rnd k)) = length a"
  by (induction i arbitrary: a k) (simp_all add: Let_def)

lemma snd_shuffle_from [simp]: "snd (shuffle_from i a rnd k) = k + i"
  by (induction i arbitrary: a k) (simp_all add: Let_def)

lemma mset_shuffle_from:
  "unit_interval rnd \<Longrightarrow> i < length a \<Longrightarrow> mset (fst (shuffle_from i a rnd k)) = mset a"
proof (induction i arbitrary: a k)
  case 0
  then show ?case by simp
next
  case (Suc i)
  have "random_index (rnd k) (Suc i) \<le> Suc i"
    using Suc.prems(1) by (simp add: random_index_le unit_interval_def)
  then have "mset (swap a (Suc i) (random_index (rnd k) (Suc i))) = mset a"
    using Suc.prems(2) by (simp add: mset_swap_array)
  then show ?case
    using Suc by (simp add: Let_def)
qed

lemma mset_shuffle: "unit_interval rnd \<Longrightarrow> mset (fst (shuffle a rnd k)) = mset a"
  by (cases a) (simp_all add: shuffle_def mset_shuffle_from)

lemma length_shuffle [simp]: "length (fst (shuffle a rnd k)) = length a"
  by (simp add: shuffle_def)

lemma snd_shuffle [simp]: "snd (shuffle a rnd k) = k + (length a - 1)"
  by (simp add: shuffle_def)

lemma fst_check_from:
  "fst (check_from d grp gs rs i) = (\<exists>k. i \<le> k \<and> k < length gs \<and> violation grp (gs ! k) (rs ! k))"
proof (induction d grp gs rs i rule: check_from.induct)
  case (1 d grp gs rs i)
  show ?case
  proof (cases "i < length gs")
    case False
    then show ?thesis by (subst check_from.simps) auto
  next
    case True
    show ?thesis
    proof (cases "violation grp (gs ! i) (rs ! i)")
      case v: True
      then have "fst (check_from d grp gs rs i)"
        using True by (subst check_from.simps) (auto simp: violation_def Let_def)
      then show ?thesis using v True by auto
    next
      case v: False
      then have "fst (check_from d grp gs rs i) = fst (check_from d grp gs rs (i + 1))"
        using True by (subst check_from.simps) (auto simp: violation_def Let_def split: prod.splits)
      also have "\<dots> = (\<exists>k. i + 1 \<le> k \<and> k < length gs \<and> violation grp (gs ! k) (rs ! k))"
        using 1 True v by (auto simp: violation_def)
      also have "\<dots> = (\<exists>k. i \<le> k \<and> k < length gs \<and> violation grp (gs ! k) (rs ! k))"
        using v by (metis Suc_eq_plus1 Suc_leD Suc_le_eq le_neq_implies_less)
      finally show ?thesis .
    qed
  qed
qed

lemma retry_loop_iterate:
  "\<not> hasInvalidAssignment ((loop_body d grp ps rnd ^^ n) s)
   \<Longrightarrow> (\<And>m. m < n \<Longrightarrow> hasInvalidAssignment ((loop_body d grp ps rnd ^^ m) s))
   \<Longrightarrow> retry_loop d grp ps rnd s = Some ((loop_body d grp ps rnd ^^ n) s)"
proof (induction n arbitrary: s)
  case 0
  then show ?case by (subst retry_loop.simps) simp
next
  case (Suc n)
  have h: "hasInvalidAssignment s" using Suc.prems(2)[of 0] by simp
  have "retry_loop d grp ps rnd (loop_body d grp ps rnd s)
          = Some ((loop_body d grp ps rnd ^^ n) (loop_body d grp ps rnd s))"
  proof (rule Suc.IH)
    show "\<not> hasInvalidAssignment ((loop_body d grp ps rnd ^^ n) (loop_body d grp ps rnd s))"
      using Suc.prems(1) by (simp add: funpow_swap1)
    show "hasInvalidAssignment ((loop_body d grp ps rnd ^^ m) (loop_body d grp ps rnd s))"
      if "m < n" for m
      using Suc.prems(2)[of "Suc m"] that by (simp add: funpow_swap1)
  qed
  then show ?case using h by (subst retry_loop.simps) (simp add: funpow_swap1)
qed

lemma retry_loop_Some:
  assumes "retry_loop d grp ps rnd s = Some t"
  shows "\<exists>n. t = (loop_body d grp ps rnd ^^ n) s \<and> \<not> hasInvalidAssignment t
          \<and> (\<forall>m<n. hasInvalidAssignment ((loop_body d grp ps rnd ^^ m) s))"
  using assms
proof (induction rule: retry_loop.raw_induct[rotated, consumes 1, case_names step])
  case (step f d grp ps rnd s t)
  show ?case
  proof (cases "hasInvalidAssignment s")
    case False
    then have "t = s" using step(2) by simp
    then show ?thesis using False by (intro exI[of _ 0]) simp
  next
    case True
    then have "f d grp ps rnd (loop_body d grp ps rnd s) = Some t" using step(2) by simp
    from step(1)[OF this] obtain n where n:
      "t = (loop_body d grp ps rnd ^^ n) (loop_body d grp ps rnd s)"
      "\<not> hasInvalidAssignment t"
      "\<forall>m<n. hasInvalidAssignment ((loop_body d grp ps rnd ^^ m) (loop_body d grp ps rnd s))"
      by blast
    have "\<forall>m<Suc n. hasInvalidAssignment ((loop_body d grp ps rnd ^^ m) s)"
    proof (intro allI impI)
      fix m assume "m < Suc n"
      show "hasInvalidAssignment ((loop_body d grp ps rnd ^^ m) s)"
      proof (cases m)
        case 0 then show ?thesis using True by simp
      next
        case (Suc m')
        then show ?thesis using n(3) \<open>m < Suc n\<close> by (simp add: funpow_swap1)
      qed
    qed
    then show ?thesis using n(1,2) by (intro exI[of _ "Suc n"]) (simp add: funpow_swap1)
  qed
qed

lemma retry_loop_None:
  "(\<And>n. hasInvalidAssignment ((loop_body d grp ps rnd ^^ n) s))
   \<Longrightarrow> retry_loop d grp ps rnd s = None"
proof (rule ccontr)
  assume a: "\<And>n. hasInvalidAssignment ((loop_body d grp ps rnd ^^ n) s)"
  assume "retry_loop d grp ps rnd s \<noteq> None"
  then obtain t where "retry_loop d grp ps rnd s = Some t" by auto
  from retry_loop_Some[OF this] a show False by auto
qed

lemma loop_body_fields:
  "receivers (loop_body d grp ps rnd s) = fst (shuffle ps rnd (calls s))"
  "calls (loop_body d grp ps rnd s) = calls s + (length ps - 1)"
  "attempts (loop_body d grp ps rnd s) = attempts s + 1"
  "hasInvalidAssignment (loop_body d grp ps rnd s)
     = fst (check_from d grp ps (fst (shuffle ps rnd (calls s))) 0)"
  by (simp_all add: loop_body_def Let_def case_prod_beta)

lemma calls_iterate:
  "calls ((loop_body d grp ps rnd ^^ n) s) = calls s + n * (length ps - 1)"
  by (induction n) (simp_all add: loop_body_fields)

lemma attempts_iterate:
  "attempts ((loop_body d grp ps rnd ^^ n) s) = attempts s + n"
  by (induction n) (simp_all add: loop_body_fields)

lemma valid_candidate_check:
  "fst (check_from d grp ps rs 0) = (\<not> valid_candidate grp ps rs)"
  by (auto simp: fst_check_from valid_candidate_def)

lemma receivers_iterate:
  "receivers ((loop_body d grp ps rnd ^^ Suc n) (initial_state ps)) = candidate ps rnd n"
  by (simp add: loop_body_fields calls_iterate candidate_def initial_state_def)

lemma hasInvalid_iterate:
  "hasInvalidAssignment ((loop_body d grp ps rnd ^^ Suc n) (initial_state ps))
     = (\<not> valid_candidate grp ps (candidate ps rnd n))"
  by (simp add: loop_body_fields calls_iterate candidate_def initial_state_def
        valid_candidate_check)

lemma retry_loop_accepts:
  assumes "valid_candidate grp ps (candidate ps rnd n)"
    and "\<And>m. m < n \<Longrightarrow> \<not> valid_candidate grp ps (candidate ps rnd m)"
  shows "retry_loop d grp ps rnd (initial_state ps)
           = Some ((loop_body d grp ps rnd ^^ Suc n) (initial_state ps))"
proof (rule retry_loop_iterate)
  show "\<not> hasInvalidAssignment ((loop_body d grp ps rnd ^^ Suc n) (initial_state ps))"
    using assms(1) by (simp only: hasInvalid_iterate) simp
  show "hasInvalidAssignment ((loop_body d grp ps rnd ^^ m) (initial_state ps))"
    if "m < Suc n" for m
  proof (cases m)
    case 0
    then show ?thesis by (simp add: initial_state_def)
  next
    case (Suc m')
    then have "m' < n" using that by simp
    then show ?thesis using assms(2) Suc by (simp only: hasInvalid_iterate) simp
  qed
qed

lemma retry_loop_returns:
  assumes "retry_loop d grp ps rnd (initial_state ps) = Some t"
  shows "\<exists>n. t = (loop_body d grp ps rnd ^^ Suc n) (initial_state ps)
            \<and> receivers t = candidate ps rnd n \<and> attempts t = Suc n
            \<and> valid_candidate grp ps (candidate ps rnd n)
            \<and> (\<forall>m<n. \<not> valid_candidate grp ps (candidate ps rnd m))"
proof -
  from retry_loop_Some[OF assms] obtain k where k:
    "t = (loop_body d grp ps rnd ^^ k) (initial_state ps)"
    "\<not> hasInvalidAssignment t"
    "\<forall>m<k. hasInvalidAssignment ((loop_body d grp ps rnd ^^ m) (initial_state ps))"
    by blast
  have "k \<noteq> 0"
  proof
    assume "k = 0"
    then have "t = initial_state ps" using k(1) by simp
    then show False using k(2) by (simp add: initial_state_def)
  qed
  then obtain n where n: "k = Suc n" by (cases k) auto
  have "valid_candidate grp ps (candidate ps rnd n)"
    using k(1,2) unfolding n by (simp only: hasInvalid_iterate) simp
  moreover have "\<forall>m<n. \<not> valid_candidate grp ps (candidate ps rnd m)"
  proof (intro allI impI)
    fix m assume "m < n"
    then have "hasInvalidAssignment ((loop_body d grp ps rnd ^^ Suc m) (initial_state ps))"
      using k(3) n by (metis Suc_mono)
    then show "\<not> valid_candidate grp ps (candidate ps rnd m)"
      unfolding hasInvalid_iterate .
  qed
  moreover have "receivers t = candidate ps rnd n"
    unfolding k(1) n by (rule receivers_iterate)
  moreover have "attempts t = Suc n"
    unfolding k(1) n by (simp only: attempts_iterate) (simp add: initial_state_def)
  ultimately show ?thesis using k(1) n by blast
qed

lemma mset_candidate: "unit_interval rnd \<Longrightarrow> mset (candidate ps rnd n) = mset ps"
  by (simp add: candidate_def mset_shuffle)

lemma length_candidate [simp]: "length (candidate ps rnd n) = length ps"
  by (simp add: candidate_def)

section \<open>The matcher returns a derangement\<close>

lemma unit_interval_zero: "unit_interval zero_source"
  by (simp add: unit_interval_def zero_source_def)

lemma shuffle_two_zero: "shuffle [x, y] zero_source k = ([y, x], Suc k)"
  by (simp add: shuffle_def swap_def random_index_def zero_source_def)

lemma example_run:
  "createAssignments False grp [alice, bob] zero_source
     = Some ([\<lparr>giver = alice, receiver = bob\<rparr>, \<lparr>giver = bob, receiver = alice\<rparr>],
             [ConsoleLog ''Creating assignments...'',
              ConsoleLog ''Attempt 1: Shuffling receivers...'',
              ConsoleLog ''Assignments created successfully after 1 attempt(s).''])"
proof -
  have c: "check_from False grp [alice, bob] [bob, alice] 0 = (False, [])"
    by (simp add: check_from.simps alice_def bob_def)
  have b: "loop_body False grp [alice, bob] zero_source (initial_state [alice, bob])
        = \<lparr>receivers = [bob, alice], hasInvalidAssignment = False, attempts = 1, calls = 1,
           out = [ConsoleLog ''Creating assignments...'',
                  ConsoleLog ''Attempt 1: Shuffling receivers...'']\<rparr>"
    by (simp add: loop_body_def initial_state_def shuffle_two_zero c show_nat.simps)
  have "retry_loop False grp [alice, bob] zero_source (initial_state [alice, bob])
        = Some \<lparr>receivers = [bob, alice], hasInvalidAssignment = False, attempts = 1, calls = 1,
           out = [ConsoleLog ''Creating assignments...'',
                  ConsoleLog ''Attempt 1: Shuffling receivers...'']\<rparr>"
    apply (subst retry_loop.simps)
    apply (simp add: b)
    apply (subst retry_loop.simps)
    apply (simp add: initial_state_def)
    done
  then show ?thesis
    by (simp add: createAssignments_def show_nat.simps upt_rec)
qed

text \<open>
  C1: whenever \<^verbatim>\<open>createAssignments\<close> returns, it returns one assignment per
  participant, the givers are the participant list in its order, the receivers are a
  permutation of the participant list, and no giver has the \<^verbatim>\<open>uid\<close> of its receiver.
  This holds for every length of the list, so in particular from 2 on; the random source
  keeps the contract of \<^verbatim>\<open>Math.random\<close>.
\<close>

theorem createAssignments_derangement:
  assumes "unit_interval rnd"
    and "createAssignments dry_run grp participants rnd = Some (assignments, lines)"
  shows "length assignments = length participants
         \<and> map giver assignments = participants
         \<and> mset (map receiver assignments) = mset participants
         \<and> (\<forall>a \<in> set assignments. uid (giver a) \<noteq> uid (receiver a))"
proof -
  from assms(2) obtain t where t:
    "retry_loop dry_run grp participants rnd (initial_state participants) = Some t"
    and a: "assignments = map (\<lambda>i. \<lparr>giver = participants ! i, receiver = receivers t ! i\<rparr>)
                               [0..<length participants]"
    by (auto simp: createAssignments_def split: option.splits)
  from retry_loop_returns[OF t] obtain n where n:
    "receivers t = candidate participants rnd n"
    "valid_candidate grp participants (candidate participants rnd n)"
    by blast
  have len: "length (receivers t) = length participants" by (simp add: n(1))
  have g: "map giver assignments = participants"
    unfolding a by (simp add: comp_def map_nth)
  have r: "map receiver assignments = receivers t"
    unfolding a using len by (simp add: comp_def) (metis map_nth)
  have "uid (giver x) \<noteq> uid (receiver x)" if "x \<in> set assignments" for x
  proof -
    from that obtain i where i: "i < length participants"
      "x = \<lparr>giver = participants ! i, receiver = receivers t ! i\<rparr>"
      unfolding a by auto
    have "\<not> violation grp (participants ! i) (receivers t ! i)"
      using n(2) i(1) by (simp add: valid_candidate_def n(1))
    then show ?thesis by (simp add: i(2) violation_def)
  qed
  moreover have "mset (map receiver assignments) = mset participants"
    using r n(1) mset_candidate[OF assms(1)] by simp
  moreover have "length assignments = length participants" unfolding a by simp
  ultimately show ?thesis using g by blast
qed

theorem createAssignments_derangement_witness:
  "unit_interval zero_source
   \<and> createAssignments False False [alice, bob] zero_source
       = Some ([\<lparr>giver = alice, receiver = bob\<rparr>, \<lparr>giver = bob, receiver = alice\<rparr>],
             [ConsoleLog ''Creating assignments...'',
              ConsoleLog ''Attempt 1: Shuffling receivers...'',
              ConsoleLog ''Assignments created successfully after 1 attempt(s).''])
   \<and> uid (giver \<lparr>giver = alice, receiver = bob\<rparr>) \<noteq> uid (receiver \<lparr>giver = alice, receiver = bob\<rparr>)
   \<and> uid (giver \<lparr>giver = bob, receiver = alice\<rparr>) \<noteq> uid (receiver \<lparr>giver = bob, receiver = alice\<rparr>)
   \<and> mset (map receiver [\<lparr>giver = alice, receiver = bob\<rparr>, \<lparr>giver = bob, receiver = alice\<rparr>])
       = mset [alice, bob]"
  using createAssignments_derangement[OF unit_interval_zero example_run[of False]]
    unit_interval_zero example_run[of False]
  by simp

section \<open>An unsatisfiable group structure\<close>

lemma mset_pair: "mset rs = mset [a, b] \<Longrightarrow> rs = [a, b] \<or> rs = [b, a]"
  by (cases rs; cases "tl rs"; cases "tl (tl rs)") (auto simp: add_eq_conv_ex dest: mset_eq_length)

lemma no_matching_carol_dave:
  "\<not> (\<exists>rs. mset rs = mset [carol, dave] \<and> valid_candidate True [carol, dave] rs)"
proof
  assume "\<exists>rs. mset rs = mset [carol, dave] \<and> valid_candidate True [carol, dave] rs"
  then obtain rs where rs: "mset rs = mset [carol, dave]" "valid_candidate True [carol, dave] rs"
    by blast
  from rs(2) have nv: "\<not> violation True carol (rs ! 0)"
    unfolding valid_candidate_def by (drule_tac x = 0 in spec) simp
  from mset_pair[OF rs(1)] show False
  proof
    assume "rs = [carol, dave]"
    then show False using nv by (simp add: violation_def)
  next
    assume "rs = [dave, carol]"
    then show False using nv by (simp add: violation_def carol_def dave_def)
  qed
qed

lemma all_rejected:
  assumes "unit_interval rnd"
    and "\<not> (\<exists>rs. mset rs = mset ps \<and> valid_candidate grp ps rs)"
  shows "hasInvalidAssignment ((loop_body d grp ps rnd ^^ n) (initial_state ps))"
proof (cases n)
  case 0
  then show ?thesis by (simp add: initial_state_def)
next
  case (Suc m)
  have "\<not> valid_candidate grp ps (candidate ps rnd m)"
    using assms mset_candidate by blast
  then show ?thesis unfolding Suc hasInvalid_iterate .
qed

text \<open>
  C3: with group exclusion on and no arrangement of the participants that avoids every
  self-match and every same-group pair, \<^verbatim>\<open>createAssignments\<close> never returns, whatever
  \<^verbatim>\<open>Math.random\<close> yields: after any number \<open>n\<close> of passes through the loop body
  \<^verbatim>\<open>hasInvalidAssignment\<close> is still true and \<^verbatim>\<open>attempts\<close> is \<open>n\<close>, so no ceiling stops
  it, and \<^verbatim>\<open>main\<close> (past its check of the list length) never returns either: it
  reports no failure.
\<close>

theorem unsatisfiable_never_returns:
  assumes "unit_interval rnd"
    and "\<not> (\<exists>rs. mset rs = mset participants \<and> valid_candidate True participants rs)"
  shows "createAssignments dry_run True participants rnd = None
         \<and> (\<forall>n. hasInvalidAssignment
                   ((loop_body dry_run True participants rnd ^^ n) (initial_state participants))
                \<and> attempts
                   ((loop_body dry_run True participants rnd ^^ n) (initial_state participants)) = n)
         \<and> (if length participants < 2
             then main dry_run True YOUR_EMAIL YOUR_APP_PASSWORD participants rnd sendMail
                  = Some [ConsoleError ''Error: You need at least 2 participants for a Secret Santa.'']
             else main dry_run True YOUR_EMAIL YOUR_APP_PASSWORD participants rnd sendMail = None)"
proof -
  have h: "hasInvalidAssignment
             ((loop_body dry_run True participants rnd ^^ n) (initial_state participants))" for n
    using all_rejected[OF assms] .
  then have "retry_loop dry_run True participants rnd (initial_state participants) = None"
    by (rule retry_loop_None)
  then have c: "createAssignments dry_run True participants rnd = None"
    by (simp add: createAssignments_def)
  have a: "attempts ((loop_body dry_run True participants rnd ^^ n) (initial_state participants)) = n"
    for n by (simp add: attempts_iterate initial_state_def)
  show ?thesis using c h a by (simp add: main_def)
qed

theorem unsatisfiable_never_returns_witness:
  "unit_interval zero_source
   \<and> \<not> (\<exists>rs. mset rs = mset [carol, dave] \<and> valid_candidate True [carol, dave] rs)
   \<and> createAssignments False True [carol, dave] zero_source = None
   \<and> main False True JUndefined JUndefined [carol, dave] zero_source always_resolves = None"
  using unsatisfiable_never_returns[OF unit_interval_zero no_matching_carol_dave,
          of False JUndefined JUndefined always_resolves]
    unit_interval_zero no_matching_carol_dave
  by simp

section \<open>Whole-permutation rejection\<close>

lemma zero_violations_valid: "zero_violations grp givers rs = valid_candidate grp givers rs"
  by (auto simp: zero_violations_def valid_candidate_def violation_def)

lemma receivers_of_assignments:
  "length rs = length ps
   \<Longrightarrow> map receiver (map (\<lambda>i. \<lparr>giver = ps ! i, receiver = rs ! i\<rparr>) [0..<length ps]) = rs"
  by (simp add: comp_def) (metis map_nth)

lemma givers_of_assignments:
  "map giver (map (\<lambda>i. \<lparr>giver = ps ! i, receiver = rs ! i\<rparr>) [0..<length ps]) = ps"
  by (simp add: comp_def map_nth)

lemma createAssignments_accepts:
  assumes "valid_candidate grp ps (candidate ps rnd n)"
    and "\<And>m. m < n \<Longrightarrow> \<not> valid_candidate grp ps (candidate ps rnd m)"
  shows "map_option (\<lambda>r. map receiver (fst r)) (createAssignments d grp ps rnd)
           = Some (candidate ps rnd n)"
    and "map_option (\<lambda>r. map giver (fst r)) (createAssignments d grp ps rnd) = Some ps"
proof -
  obtain t where t: "retry_loop d grp ps rnd (initial_state ps) = Some t"
    and r: "receivers t = candidate ps rnd n"
    using retry_loop_accepts[of grp ps rnd n d, OF assms] receivers_iterate by blast
  have len: "length (receivers t) = length ps" by (simp add: r)
  show "map_option (\<lambda>r. map receiver (fst r)) (createAssignments d grp ps rnd)
           = Some (candidate ps rnd n)"
    unfolding createAssignments_def t using receivers_of_assignments[OF len] by (simp add: r)
  show "map_option (\<lambda>r. map giver (fst r)) (createAssignments d grp ps rnd) = Some ps"
    unfolding createAssignments_def t using givers_of_assignments by simp
qed

lemma createAssignments_rejects:
  assumes "\<And>n. \<not> valid_candidate grp ps (candidate ps rnd n)"
  shows "createAssignments d grp ps rnd = None"
proof -
  have "hasInvalidAssignment ((loop_body d grp ps rnd ^^ n) (initial_state ps))" for n
  proof (cases n)
    case 0
    then show ?thesis by (simp add: initial_state_def)
  next
    case (Suc m)
    show ?thesis unfolding Suc hasInvalid_iterate using assms .
  qed
  then have "retry_loop d grp ps rnd (initial_state ps) = None"
    by (rule retry_loop_None)
  then show ?thesis by (simp add: createAssignments_def)
qed

text \<open>
  C5: the receivers \<^verbatim>\<open>createAssignments\<close> returns are what whole-permutation rejection
  sampling returns on the sequence of candidates, where candidate \<open>n\<close> is a shuffle of
  a fresh copy of the whole participant list (never a patch of the previous candidate):
  the first candidate with zero violations is accepted, and the loop runs for ever when
  there is none. The givers stay the participant list.
\<close>

theorem whole_permutation_rejection:
  "map_option (\<lambda>r. map receiver (fst r)) (createAssignments dry_run grp participants rnd)
     = reference_rejection_sampling (zero_violations grp participants)
         (\<lambda>n. fst (shuffle participants rnd (n * (length participants - 1))))
   \<and> map_option (\<lambda>r. map giver (fst r)) (createAssignments dry_run grp participants rnd)
     = map_option (\<lambda>r. participants) (createAssignments dry_run grp participants rnd)
   \<and> (\<forall>n. receivers ((loop_body dry_run grp participants rnd ^^ Suc n) (initial_state participants))
            = fst (shuffle participants rnd (n * (length participants - 1))))"
proof -
  let ?acc = "\<lambda>n. valid_candidate grp participants (candidate participants rnd n)"
  let ?run = "createAssignments dry_run grp participants rnd"
  have draw: "(\<lambda>n. fst (shuffle participants rnd (n * (length participants - 1))))
                = candidate participants rnd"
    by (simp add: candidate_def fun_eq_iff)
  have zv: "zero_violations grp participants = valid_candidate grp participants"
    by (simp add: zero_violations_valid fun_eq_iff)
  have fresh: "\<forall>n. receivers ((loop_body dry_run grp participants rnd ^^ Suc n)
                     (initial_state participants))
            = fst (shuffle participants rnd (n * (length participants - 1)))"
    unfolding receivers_iterate candidate_def by simp
  have "map_option (\<lambda>r. map receiver (fst r)) ?run
          = reference_rejection_sampling (valid_candidate grp participants)
              (candidate participants rnd)
        \<and> map_option (\<lambda>r. map giver (fst r)) ?run = map_option (\<lambda>r. participants) ?run"
  proof (cases "\<exists>n. ?acc n")
    case True
    define k where "k = (LEAST n. ?acc n)"
    have k: "?acc k" unfolding k_def using True by (rule LeastI_ex)
    have least: "\<not> ?acc m" if "m < k" for m
      using that unfolding k_def by (rule not_less_Least)
    have ref: "reference_rejection_sampling (valid_candidate grp participants)
            (candidate participants rnd) = Some (candidate participants rnd k)"
      using True by (simp add: reference_rejection_sampling_def k_def)
    note acc = createAssignments_accepts[of grp participants rnd k dry_run, OF k least]
    from acc(2) obtain res where "?run = Some res" by auto
    then show ?thesis using acc ref by simp
  next
    case False
    then have "?run = None"
      by (intro createAssignments_rejects) simp
    moreover have "reference_rejection_sampling (valid_candidate grp participants)
            (candidate participants rnd) = None"
      using False by (simp add: reference_rejection_sampling_def)
    ultimately show ?thesis by simp
  qed
  then show ?thesis unfolding draw zv using fresh by blast
qed

lemma unit_interval_retry: "unit_interval retry_source"
  by (simp add: unit_interval_def retry_source_def)

lemma example_run_retry:
  "createAssignments False False [alice, bob] retry_source
     = Some ([\<lparr>giver = alice, receiver = bob\<rparr>, \<lparr>giver = bob, receiver = alice\<rparr>],
             [ConsoleLog ''Creating assignments...'',
              ConsoleLog ''Attempt 1: Shuffling receivers...'',
              ConsoleLog ''...Self-assignment found for Alice. Re-shuffling entire list.'',
              ConsoleLog ''Attempt 2: Shuffling receivers...'',
              ConsoleLog ''Assignments created successfully after 2 attempt(s).''])"
proof -
  have s0: "shuffle [alice, bob] retry_source 0 = ([alice, bob], 1)"
    by (simp add: shuffle_def swap_def random_index_def retry_source_def)
  have s1: "shuffle [alice, bob] retry_source (Suc 0) = ([bob, alice], 2)"
    by (simp add: shuffle_def swap_def random_index_def retry_source_def)
  have c0: "check_from False False [alice, bob] [alice, bob] 0
              = (True, [ConsoleLog ''...Self-assignment found for Alice. Re-shuffling entire list.''])"
    by (simp add: check_from.simps alice_def)
  have c1: "check_from False False [alice, bob] [bob, alice] 0 = (False, [])"
    by (simp add: check_from.simps alice_def bob_def)
  let ?s1 = "\<lparr>receivers = [alice, bob], hasInvalidAssignment = True, attempts = Suc 0, calls = Suc 0,
           out = [ConsoleLog ''Creating assignments...'',
                  ConsoleLog ''Attempt 1: Shuffling receivers...'',
                  ConsoleLog ''...Self-assignment found for Alice. Re-shuffling entire list.'']\<rparr>"
  let ?s2 = "\<lparr>receivers = [bob, alice], hasInvalidAssignment = False, attempts = 2, calls = 2,
           out = [ConsoleLog ''Creating assignments...'',
                  ConsoleLog ''Attempt 1: Shuffling receivers...'',
                  ConsoleLog ''...Self-assignment found for Alice. Re-shuffling entire list.'',
                  ConsoleLog ''Attempt 2: Shuffling receivers...'']\<rparr>"
  have b1: "loop_body False False [alice, bob] retry_source (initial_state [alice, bob]) = ?s1"
    by (simp add: loop_body_def initial_state_def s0 c0 show_nat.simps)
  have b2: "loop_body False False [alice, bob] retry_source ?s1 = ?s2"
    by (simp add: loop_body_def s1 c1 show_nat.simps)
  have r2: "retry_loop False False [alice, bob] retry_source ?s2 = Some ?s2"
    by (subst retry_loop.simps) simp
  have r1: "retry_loop False False [alice, bob] retry_source ?s1 = Some ?s2"
    by (subst retry_loop.simps) (simp add: b2 r2)
  have "retry_loop False False [alice, bob] retry_source (initial_state [alice, bob]) = Some ?s2"
    by (subst retry_loop.simps) (simp add: b1 r1, simp add: initial_state_def)
  then show ?thesis
    by (simp add: createAssignments_def show_nat.simps upt_rec)
qed

theorem whole_permutation_rejection_witness:
  "map_option (\<lambda>r. map receiver (fst r)) (createAssignments False False [alice, bob] retry_source)
     = Some [bob, alice]
   \<and> reference_rejection_sampling (zero_violations False [alice, bob])
         (\<lambda>n. fst (shuffle [alice, bob] retry_source (n * (length [alice, bob] - 1))))
     = Some [bob, alice]
   \<and> fst (shuffle [alice, bob] retry_source (0 * (length [alice, bob] - 1))) = [alice, bob]
   \<and> fst (shuffle [alice, bob] retry_source (1 * (length [alice, bob] - 1))) = [bob, alice]"
proof -
  have s0: "shuffle [alice, bob] retry_source 0 = ([alice, bob], 1)"
    by (simp add: shuffle_def swap_def random_index_def retry_source_def)
  have s1: "shuffle [alice, bob] retry_source (Suc 0) = ([bob, alice], 2)"
    by (simp add: shuffle_def swap_def random_index_def retry_source_def)
  show ?thesis
    using whole_permutation_rejection[of False False "[alice, bob]" retry_source]
    by (simp add: example_run_retry s0 s1)
qed

section \<open>Falsy group labels\<close>

lemma check_from_falsy:
  assumes "\<forall>k<length givers. \<not> truthy (group_label (givers ! k)) \<or> \<not> truthy (group_label (rs ! k))"
  shows "check_from dry_run True givers rs i = check_from dry_run False givers rs i"
  using assms
proof (induction "length givers - i" arbitrary: i)
  case 0
  then have "\<not> i < length givers" by simp
  then show ?case by (simp add: check_from.simps[of _ _ givers rs i])
next
  case (Suc n)
  then have i: "i < length givers" by simp
  have ih: "check_from dry_run True givers rs (i + 1) = check_from dry_run False givers rs (i + 1)"
    using Suc.hyps(1)[of "i + 1"] Suc.hyps(2) Suc.prems by simp
  have f: "(truthy (group_label (givers ! i)) \<and> truthy (group_label (rs ! i))
             \<and> group_label (givers ! i) = group_label (rs ! i)) = False"
    using Suc.prems i by blast
  show ?case
    using i ih
    by (simp add: check_from.simps[of _ _ givers rs i] Let_def f)
qed

lemma empty_labels_assigned:
  assumes "uid g \<noteq> uid r" and "group_label g = JStr []" and "group_label r = JStr []"
  shows "map_option fst (createAssignments dry_run True [g, r] zero_source)
           = Some [\<lparr>giver = g, receiver = r\<rparr>, \<lparr>giver = r, receiver = g\<rparr>]"
proof -
  have c: "candidate [g, r] zero_source 0 = [r, g]"
    by (simp add: candidate_def shuffle_two_zero)
  have v: "valid_candidate True [g, r] (candidate [g, r] zero_source 0)"
    unfolding c valid_candidate_def using assms
    by (auto simp: violation_def less_Suc_eq)
  obtain t where t: "retry_loop dry_run True [g, r] zero_source (initial_state [g, r]) = Some t"
    and r: "receivers t = candidate [g, r] zero_source 0"
    using retry_loop_accepts[of True "[g, r]" zero_source 0 dry_run, OF v] receivers_iterate
    by blast
  show ?thesis
    unfolding createAssignments_def t by (simp add: r c upt_rec)
qed

text \<open>
  C10: rule 2 reads a falsy group label as no label. Where at every index the giver's or
  the receiver's label is falsy, the check with group exclusion on is the check with it
  off; and two participants with different \<^verbatim>\<open>uid\<close>s whose labels are both the empty
  string are assigned to each other with group exclusion on (the random source here
  draws index 0).
\<close>

theorem falsy_group_label_is_absent:
  "((\<forall>k<length givers. \<not> truthy (group_label (givers ! k)) \<or> \<not> truthy (group_label (rs ! k)))
      \<longrightarrow> check_from dry_run True givers rs i = check_from dry_run False givers rs i)
   \<and> (uid g \<noteq> uid r \<and> group_label g = JStr [] \<and> group_label r = JStr []
      \<longrightarrow> map_option fst (createAssignments dry_run True [g, r] zero_source)
            = Some [\<lparr>giver = g, receiver = r\<rparr>, \<lparr>giver = r, receiver = g\<rparr>])"
  using check_from_falsy empty_labels_assigned by blast

theorem falsy_group_label_is_absent_witness:
  "group_label erin = JStr [] \<and> group_label frank = JStr [] \<and> group_label erin = group_label frank
   \<and> uid erin \<noteq> uid frank
   \<and> check_from False True [erin, frank] [frank, erin] 0 = (False, [])
   \<and> check_from False False [erin, frank] [frank, erin] 0 = (False, [])
   \<and> map_option fst (createAssignments False True [erin, frank] zero_source)
       = Some [\<lparr>giver = erin, receiver = frank\<rparr>, \<lparr>giver = frank, receiver = erin\<rparr>]"
proof -
  have l: "group_label erin = JStr []" "group_label frank = JStr []" "uid erin \<noteq> uid frank"
    by (simp_all add: erin_def frank_def)
  have f: "\<forall>k<length [erin, frank].
             \<not> truthy (group_label ([erin, frank] ! k)) \<or> \<not> truthy (group_label ([frank, erin] ! k))"
    by (simp add: l less_Suc_eq)
  have c: "check_from False False [erin, frank] [frank, erin] 0 = (False, [])"
    by (simp add: check_from.simps erin_def frank_def)
  show ?thesis
    using falsy_group_label_is_absent[where givers = "[erin, frank]" and rs = "[frank, erin]"
            and dry_run = False and i = 0 and g = erin and r = frank] f l c
    by simp
qed

section \<open>Traces of the notifier and of the matcher\<close>

lemma sent_mails_append [simp]: "sent_mails (xs @ ys) = sent_mails xs @ sent_mails ys"
  by (induction xs rule: sent_mails.induct) simp_all

lemma send_loop_dry:
  \<open>send_loop True YOUR_EMAIL sendMail n assignments
     = map (\<lambda>a. ConsoleLog (''(DRY RUN) Would email '' @ name (giver a) @ '' ('' @ email (giver a)
                               @ ''): "You got '' @ name (receiver a) @ ''"'')) assignments\<close>
  by (induction assignments) (simp_all add: Let_def)

lemma sent_mails_send_loop_live:
  "sent_mails (send_loop False YOUR_EMAIL sendMail n assignments)
     = map (mailOptions YOUR_EMAIL) assignments"
  by (induction assignments arbitrary: n) (simp_all add: Let_def split: send_result.splits)

lemma send_loop_live_attempts:
  "K < length assignments
   \<Longrightarrow> SendMail (mailOptions YOUR_EMAIL (assignments ! K))
         \<in> set (send_loop False YOUR_EMAIL sendMail n assignments)"
proof (induction assignments arbitrary: n K)
  case Nil
  then show ?case by simp
next
  case (Cons a rest)
  show ?case
  proof (cases K)
    case 0
    then show ?thesis by (simp add: Let_def split: send_result.splits)
  next
    case (Suc K')
    then have "SendMail (mailOptions YOUR_EMAIL (rest ! K'))
                 \<in> set (send_loop False YOUR_EMAIL sendMail (Suc n) rest)"
      using Cons.IH[of K' "Suc n"] Cons.prems by simp
    then show ?thesis using Suc by (simp add: Let_def split: send_result.splits)
  qed
qed

lemma send_loop_live_logs_failure:
  "K < length assignments
   \<Longrightarrow> sendMail (n + K) (mailOptions YOUR_EMAIL (assignments ! K)) = Rejected message
   \<Longrightarrow> ConsoleError (emoji_cross @ '' Error sending email to '' @ name (giver (assignments ! K))
                       @ '': '' @ message)
         \<in> set (send_loop False YOUR_EMAIL sendMail n assignments)"
proof (induction assignments arbitrary: n K)
  case Nil
  then show ?case by simp
next
  case (Cons a rest)
  show ?case
  proof (cases K)
    case 0
    then show ?thesis using Cons.prems by (simp add: Let_def)
  next
    case (Suc K')
    then have "ConsoleError (emoji_cross @ '' Error sending email to '' @ name (giver (rest ! K'))
                       @ '': '' @ message)
                 \<in> set (send_loop False YOUR_EMAIL sendMail (Suc n) rest)"
      using Cons.IH[of K' "Suc n"] Cons.prems by simp
    then show ?thesis using Suc by (simp add: Let_def split: send_result.splits)
  qed
qed

lemma sent_mails_check_from: "sent_mails (snd (check_from d grp gs rs i)) = []"
proof (induction d grp gs rs i rule: check_from.induct)
  case (1 d grp gs rs i)
  show ?case
  proof (cases "i < length gs")
    case False
    then show ?thesis by (simp add: check_from.simps[of d grp gs rs i])
  next
    case True
    show ?thesis
    proof (cases "violation grp (gs ! i) (rs ! i)")
      case v: True
      then show ?thesis
        using True by (auto simp: check_from.simps[of d grp gs rs i] violation_def Let_def)
    next
      case v: False
      then have "sent_mails (snd (check_from d grp gs rs (i + 1))) = []"
        using 1 True by (simp add: violation_def)
      then show ?thesis
        using True v
        by (auto simp: check_from.simps[of d grp gs rs i] violation_def Let_def split: prod.splits)
    qed
  qed
qed

lemma out_loop_body:
  "out (loop_body d grp ps rnd s)
     = out s @ [ConsoleLog (''Attempt '' @ show_nat (attempts s + 1) @ '': Shuffling receivers...'')]
         @ snd (check_from d grp ps (fst (shuffle ps rnd (calls s))) 0)"
  by (simp add: loop_body_def Let_def case_prod_beta)

lemma sent_mails_out_iterate:
  "sent_mails (out ((loop_body d grp ps rnd ^^ n) (initial_state ps))) = []"
  by (induction n) (simp_all add: out_loop_body sent_mails_check_from initial_state_def)

lemma hd_out_iterate:
  "\<exists>rest. out ((loop_body d grp ps rnd ^^ n) (initial_state ps))
            = ConsoleLog ''Creating assignments...'' # rest"
  by (induction n) (auto simp: out_loop_body initial_state_def)

lemma createAssignments_lines:
  assumes "createAssignments d grp ps rnd = Some (assignments, lines)"
  shows "sent_mails lines = []" and "ConsoleLog ''Creating assignments...'' \<in> set lines"
proof -
  from assms obtain t where t: "retry_loop d grp ps rnd (initial_state ps) = Some t"
    and l: "lines = out t @ [ConsoleLog (''Assignments created successfully after ''
                                       @ show_nat (attempts t) @ '' attempt(s).'')]"
    by (auto simp: createAssignments_def split: option.splits)
  from retry_loop_Some[OF t] obtain n where n: "t = (loop_body d grp ps rnd ^^ n) (initial_state ps)"
    by blast
  show "sent_mails lines = []"
    unfolding l n by (simp add: sent_mails_out_iterate)
  from hd_out_iterate[where d = d and grp = grp and ps = ps and rnd = rnd and n = n] obtain rest where "out t = ConsoleLog ''Creating assignments...'' # rest"
    unfolding n by blast
  then show "ConsoleLog ''Creating assignments...'' \<in> set lines"
    unfolding l by simp
qed

section \<open>Dry run\<close>

lemma sent_mails_console_lines: "sent_mails (map (\<lambda>a. ConsoleLog (f a)) xs) = []"
  by (induction xs) simp_all

lemma sendEmails_dry:
  \<open>sendEmails True YOUR_EMAIL YOUR_APP_PASSWORD sendMail assignments
     = CreateTransport YOUR_EMAIL YOUR_APP_PASSWORD
       # ConsoleLog ''\<newline>--- Sending Emails ---''
       # map (\<lambda>a. ConsoleLog (''(DRY RUN) Would email '' @ name (giver a) @ '' ('' @ email (giver a)
                                 @ ''): "You got '' @ name (receiver a) @ ''"'')) assignments\<close>
  by (simp only: sendEmails_def send_loop_dry)

lemma sent_mails_sendEmails_dry:
  "sent_mails (sendEmails True YOUR_EMAIL YOUR_APP_PASSWORD sendMail assignments) = []"
  by (simp only: sendEmails_dry sent_mails.simps sent_mails_console_lines)

lemma sent_mails_main_dry:
  assumes "main True grp YOUR_EMAIL YOUR_APP_PASSWORD participants rnd sendMail = Some trace"
  shows "sent_mails trace = []"
proof (cases "length participants < 2")
  case True
  then show ?thesis using assms by (auto simp: main_def)
next
  case False
  then obtain assignments lines where
    c: "createAssignments True grp participants rnd = Some (assignments, lines)"
    using assms by (auto simp: main_def split: option.splits)
  have "sent_mails lines = []" using createAssignments_lines(1)[OF c] .
  then show ?thesis
    using assms False c by (auto simp: main_def sent_mails_sendEmails_dry)
qed

text \<open>
  C6: in dry-run mode \<^verbatim>\<open>sendEmails\<close> builds the transport and prints one line per
  assignment; it calls \<^verbatim>\<open>transporter.sendMail\<close> not once, whatever the assignments and
  whatever the transport would answer. The same holds for the whole of \<^verbatim>\<open>main\<close> and
  for the script started with \<^verbatim>\<open>--dry-run\<close> or \<^verbatim>\<open>-d\<close>.
\<close>

theorem dry_run_sends_no_mail:
  \<open>sendEmails True YOUR_EMAIL YOUR_APP_PASSWORD sendMail assignments
     = CreateTransport YOUR_EMAIL YOUR_APP_PASSWORD
       # ConsoleLog ''\<newline>--- Sending Emails ---''
       # map (\<lambda>a. ConsoleLog (''(DRY RUN) Would email '' @ name (giver a) @ '' ('' @ email (giver a)
                                 @ ''): "You got '' @ name (receiver a) @ ''"'')) assignments
   \<and> sent_mails (sendEmails True YOUR_EMAIL YOUR_APP_PASSWORD sendMail assignments) = []
   \<and> (main True grp YOUR_EMAIL YOUR_APP_PASSWORD participants rnd sendMail = Some trace
        \<longrightarrow> sent_mails trace = [])
   \<and> ((''--dry-run'' \<in> set args \<or> ''-d'' \<in> set args)
        \<and> script args YOUR_EMAIL YOUR_APP_PASSWORD participants rnd sendMail = Some trace'
        \<longrightarrow> sent_mails trace' = [])\<close>
proof -
  have "sent_mails trace' = []"
    if f: "''--dry-run'' \<in> set args \<or> ''-d'' \<in> set args"
      and s: "script args YOUR_EMAIL YOUR_APP_PASSWORD participants rnd sendMail = Some trace'"
  proof (cases "help_requested args")
    case True
    then show ?thesis using s by (auto simp: script_def)
  next
    case False
    have "DRY_RUN args" using f by (simp add: DRY_RUN_def)
    then have "main True (groups_on args) YOUR_EMAIL YOUR_APP_PASSWORD participants rnd sendMail
                 = Some trace'"
      using s False by (simp add: script_def)
    then show ?thesis by (rule sent_mails_main_dry)
  qed
  then show ?thesis
    using sendEmails_dry sent_mails_sendEmails_dry sent_mails_main_dry by blast
qed

lemma example_run_dry:
  "createAssignments True False [alice, bob] zero_source
     = Some ([\<lparr>giver = alice, receiver = bob\<rparr>, \<lparr>giver = bob, receiver = alice\<rparr>],
             [ConsoleLog ''Creating assignments...'',
              ConsoleLog ''Attempt 1: Shuffling receivers...'',
              ConsoleLog ''Checking assignment: Alice -> Bob'',
              ConsoleLog ''Checking assignment: Bob -> Alice'',
              ConsoleLog ''Assignments created successfully after 1 attempt(s).''])"
proof -
  let ?s1 = "\<lparr>receivers = [bob, alice], hasInvalidAssignment = False, attempts = Suc 0,
              calls = Suc 0,
              out = [ConsoleLog ''Creating assignments...'',
                     ConsoleLog ''Attempt 1: Shuffling receivers...'',
                     ConsoleLog ''Checking assignment: Alice -> Bob'',
                     ConsoleLog ''Checking assignment: Bob -> Alice'']\<rparr>"
  have c: "check_from True False [alice, bob] [bob, alice] 0
             = (False, [ConsoleLog ''Checking assignment: Alice -> Bob'',
                        ConsoleLog ''Checking assignment: Bob -> Alice''])"
    by (simp add: check_from.simps alice_def bob_def)
  have b: "loop_body True False [alice, bob] zero_source (initial_state [alice, bob]) = ?s1"
    by (simp add: loop_body_def initial_state_def shuffle_two_zero c show_nat.simps)
  have r1: "retry_loop True False [alice, bob] zero_source ?s1 = Some ?s1"
    by (subst retry_loop.simps) simp
  have "retry_loop True False [alice, bob] zero_source (initial_state [alice, bob]) = Some ?s1"
    by (subst retry_loop.simps) (simp add: b r1, simp add: initial_state_def)
  then show ?thesis
    by (simp add: createAssignments_def show_nat.simps upt_rec)
qed

theorem dry_run_sends_no_mail_witness:
  \<open>script [''--dry-run''] (JStr ''santa@example.com'') (JStr ''app-password'') [alice, bob]
       zero_source always_resolves
     = Some [ConsoleLog ''******************************'',
             ConsoleLog ''* RUNNING IN DRY MODE    *'',
             ConsoleLog ''* No emails will be sent.   *'',
             ConsoleLog ''******************************\<newline>'',
             ConsoleLog ''Creating assignments...'',
             ConsoleLog ''Attempt 1: Shuffling receivers...'',
             ConsoleLog ''Checking assignment: Alice -> Bob'',
             ConsoleLog ''Checking assignment: Bob -> Alice'',
             ConsoleLog ''Assignments created successfully after 1 attempt(s).'',
             CreateTransport (JStr ''santa@example.com'') (JStr ''app-password''),
             ConsoleLog ''\<newline>--- Sending Emails ---'',
             ConsoleLog ''(DRY RUN) Would email Alice (alice@example.com): "You got Bob"'',
             ConsoleLog ''(DRY RUN) Would email Bob (bob@example.com): "You got Alice"'',
             ConsoleLog ''\<newline>All done!'']
   \<and> sent_mails
        [ConsoleLog ''******************************'',
         ConsoleLog ''* RUNNING IN DRY MODE    *'',
         ConsoleLog ''* No emails will be sent.   *'',
         ConsoleLog ''******************************\<newline>'',
         ConsoleLog ''Creating assignments...'',
         ConsoleLog ''Attempt 1: Shuffling receivers...'',
         ConsoleLog ''Checking assignment: Alice -> Bob'',
         ConsoleLog ''Checking assignment: Bob -> Alice'',
         ConsoleLog ''Assignments created successfully after 1 attempt(s).'',
         CreateTransport (JStr ''santa@example.com'') (JStr ''app-password''),
         ConsoleLog ''\<newline>--- Sending Emails ---'',
         ConsoleLog ''(DRY RUN) Would email Alice (alice@example.com): "You got Bob"'',
         ConsoleLog ''(DRY RUN) Would email Bob (bob@example.com): "You got Alice"'',
         ConsoleLog ''\<newline>All done!''] = []\<close>
proof -
  have run: \<open>script [''--dry-run''] (JStr ''santa@example.com'') (JStr ''app-password'') [alice, bob]
       zero_source always_resolves
     = Some [ConsoleLog ''******************************'',
             ConsoleLog ''* RUNNING IN DRY MODE    *'',
             ConsoleLog ''* No emails will be sent.   *'',
             ConsoleLog ''******************************\<newline>'',
             ConsoleLog ''Creating assignments...'',
             ConsoleLog ''Attempt 1: Shuffling receivers...'',
             ConsoleLog ''Checking assignment: Alice -> Bob'',
             ConsoleLog ''Checking assignment: Bob -> Alice'',
             ConsoleLog ''Assignments created successfully after 1 attempt(s).'',
             CreateTransport (JStr ''santa@example.com'') (JStr ''app-password''),
             ConsoleLog ''\<newline>--- Sending Emails ---'',
             ConsoleLog ''(DRY RUN) Would email Alice (alice@example.com): "You got Bob"'',
             ConsoleLog ''(DRY RUN) Would email Bob (bob@example.com): "You got Alice"'',
             ConsoleLog ''\<newline>All done!'']\<close>
    by (simp add: script_def help_requested_def DRY_RUN_def groups_on_def main_def
          example_run_dry sendEmails_def, simp add: alice_def bob_def)
  have flag: "''--dry-run'' \<in> set [''--dry-run''] \<or> ''-d'' \<in> set [''--dry-run'']"
    by simp
  from dry_run_sends_no_mail[where args = "[''--dry-run'']"
         and YOUR_EMAIL = "JStr ''santa@example.com''" and YOUR_APP_PASSWORD = "JStr ''app-password''"
         and participants = "[alice, bob]" and rnd = zero_source and sendMail = always_resolves]
    flag run
  show ?thesis by (simp only: run)
qed

section \<open>Delivery failures\<close>

lemma assignments_of_run:
  assumes "createAssignments d grp ps rnd = Some (assignments, lines)"
  shows "map giver assignments = ps"
proof (cases "retry_loop d grp ps rnd (initial_state ps)")
  case None
  then show ?thesis using assms by (simp add: createAssignments_def)
next
  case (Some t)
  then have "assignments
               = map (\<lambda>i. \<lparr>giver = ps ! i, receiver = receivers t ! i\<rparr>) [0..<length ps]"
    using assms by (simp add: createAssignments_def)
  then show ?thesis by (simp only: givers_of_assignments)
qed

lemma mail_to_mailOptions: "mail_to (mailOptions YOUR_EMAIL a) = email (giver a)"
  by (simp add: mailOptions_def Let_def)

lemma sent_mails_main_live:
  assumes "2 \<le> length participants"
    and "main False grp YOUR_EMAIL YOUR_APP_PASSWORD participants rnd sendMail = Some trace"
  shows "map mail_to (sent_mails trace) = map email participants"
proof -
  from assms obtain assignments lines where
    c: "createAssignments False grp participants rnd = Some (assignments, lines)"
    by (auto simp: main_def split: option.splits)
  have l: "sent_mails lines = []" using createAssignments_lines(1)[OF c] .
  have "sent_mails trace = map (mailOptions YOUR_EMAIL) assignments"
    using assms c l by (auto simp: main_def sendEmails_def sent_mails_send_loop_live)
  then have "map mail_to (sent_mails trace) = map email (map giver assignments)"
    by (simp add: comp_def mail_to_mailOptions)
  then show ?thesis by (simp only: assignments_of_run[OF c])
qed

text \<open>
  C7: in live mode \<^verbatim>\<open>sendEmails\<close> calls \<^verbatim>\<open>sendMail\<close> once for each assignment, in
  order, whatever the transport answers: a rejected send at position \<open>K\<close> is printed
  with \<^verbatim>\<open>console.error\<close>, is not sent again, and the assignments after \<open>K\<close> are
  still sent. For \<^verbatim>\<open>main\<close> this means one mail to each participant, in the order of
  the list.
\<close>

theorem delivery_failure_is_isolated:
  "sent_mails (sendEmails False YOUR_EMAIL YOUR_APP_PASSWORD sendMail assignments)
     = map (mailOptions YOUR_EMAIL) assignments
   \<and> (K < length assignments
        \<and> sendMail K (mailOptions YOUR_EMAIL (assignments ! K)) = Rejected message
      \<longrightarrow> ConsoleError (emoji_cross @ '' Error sending email to ''
                          @ name (giver (assignments ! K)) @ '': '' @ message)
            \<in> set (sendEmails False YOUR_EMAIL YOUR_APP_PASSWORD sendMail assignments)
          \<and> (\<forall>K'. K < K' \<and> K' < length assignments
                \<longrightarrow> SendMail (mailOptions YOUR_EMAIL (assignments ! K'))
                      \<in> set (sendEmails False YOUR_EMAIL YOUR_APP_PASSWORD sendMail assignments)))
   \<and> (2 \<le> length participants
        \<and> main False grp YOUR_EMAIL YOUR_APP_PASSWORD participants rnd sendMail = Some trace
      \<longrightarrow> map mail_to (sent_mails trace) = map email participants)"
proof -
  have a: "sent_mails (sendEmails False YOUR_EMAIL YOUR_APP_PASSWORD sendMail assignments)
             = map (mailOptions YOUR_EMAIL) assignments"
    by (simp add: sendEmails_def sent_mails_send_loop_live)
  have b: "ConsoleError (emoji_cross @ '' Error sending email to ''
                          @ name (giver (assignments ! K)) @ '': '' @ message)
            \<in> set (sendEmails False YOUR_EMAIL YOUR_APP_PASSWORD sendMail assignments)"
    if "K < length assignments"
      and "sendMail K (mailOptions YOUR_EMAIL (assignments ! K)) = Rejected message"
    using send_loop_live_logs_failure[of K assignments sendMail 0 YOUR_EMAIL message] that
    by (simp add: sendEmails_def)
  have c: "SendMail (mailOptions YOUR_EMAIL (assignments ! K'))
             \<in> set (sendEmails False YOUR_EMAIL YOUR_APP_PASSWORD sendMail assignments)"
    if "K' < length assignments" for K'
    using send_loop_live_attempts[OF that, of YOUR_EMAIL sendMail 0]
    by (simp add: sendEmails_def)
  show ?thesis
    using a b c sent_mails_main_live by blast
qed

theorem delivery_failure_is_isolated_witness:
  "fails_first 0 (mailOptions (JStr ''santa@example.com'') \<lparr>giver = alice, receiver = bob\<rparr>)
     = Rejected ''Connection timeout''
   \<and> sendEmails False (JStr ''santa@example.com'') (JStr ''app-password'') fails_first
        [\<lparr>giver = alice, receiver = bob\<rparr>, \<lparr>giver = bob, receiver = alice\<rparr>]
     = [CreateTransport (JStr ''santa@example.com'') (JStr ''app-password''),
        ConsoleLog ''\<newline>--- Sending Emails ---'',
        SendMail (mailOptions (JStr ''santa@example.com'') \<lparr>giver = alice, receiver = bob\<rparr>),
        ConsoleError (emoji_cross @ '' Error sending email to Alice: Connection timeout''),
        SendMail (mailOptions (JStr ''santa@example.com'') \<lparr>giver = bob, receiver = alice\<rparr>),
        ConsoleLog (emoji_check @ '' Email sent successfully to Bob'')]
   \<and> sent_mails (sendEmails False (JStr ''santa@example.com'') (JStr ''app-password'') fails_first
        [\<lparr>giver = alice, receiver = bob\<rparr>, \<lparr>giver = bob, receiver = alice\<rparr>])
     = [mailOptions (JStr ''santa@example.com'') \<lparr>giver = alice, receiver = bob\<rparr>,
        mailOptions (JStr ''santa@example.com'') \<lparr>giver = bob, receiver = alice\<rparr>]
   \<and> map_option (\<lambda>trace. map mail_to (sent_mails trace))
        (main False False (JStr ''santa@example.com'') (JStr ''app-password'') [alice, bob]
           zero_source fails_first)
     = Some [''alice@example.com'', ''bob@example.com'']"
proof -
  have f: "fails_first 0 (mailOptions (JStr ''santa@example.com'') \<lparr>giver = alice, receiver = bob\<rparr>)
     = Rejected ''Connection timeout''"
    by (simp add: fails_first_def)
  have run: "sendEmails False (JStr ''santa@example.com'') (JStr ''app-password'') fails_first
        [\<lparr>giver = alice, receiver = bob\<rparr>, \<lparr>giver = bob, receiver = alice\<rparr>]
     = [CreateTransport (JStr ''santa@example.com'') (JStr ''app-password''),
        ConsoleLog ''\<newline>--- Sending Emails ---'',
        SendMail (mailOptions (JStr ''santa@example.com'') \<lparr>giver = alice, receiver = bob\<rparr>),
        ConsoleError (emoji_cross @ '' Error sending email to Alice: Connection timeout''),
        SendMail (mailOptions (JStr ''santa@example.com'') \<lparr>giver = bob, receiver = alice\<rparr>),
        ConsoleLog (emoji_check @ '' Email sent successfully to Bob'')]"
    by (simp add: sendEmails_def fails_first_def Let_def, simp add: alice_def bob_def)
  obtain trace where m: "main False False (JStr ''santa@example.com'')
            (JStr ''app-password'') [alice, bob] zero_source fails_first = Some trace"
    by (simp add: main_def example_run)
  have n: "2 \<le> length [alice, bob]" by simp
  note inst = delivery_failure_is_isolated[where assignments =
        "[\<lparr>giver = alice, receiver = bob\<rparr>, \<lparr>giver = bob, receiver = alice\<rparr>]"
      and YOUR_EMAIL = "JStr ''santa@example.com''" and YOUR_APP_PASSWORD = "JStr ''app-password''"
      and sendMail = fails_first and K = 0 and message = "''Connection timeout''"
      and participants = "[alice, bob]" and grp = False and rnd = zero_source and trace = trace]
  have "map mail_to (sent_mails trace) = map email [alice, bob]"
    using inst n m by blast
  then have "map mail_to (sent_mails trace) = [''alice@example.com'', ''bob@example.com'']"
    by (simp add: alice_def bob_def)
  moreover have "sent_mails (sendEmails False (JStr ''santa@example.com'') (JStr ''app-password'')
        fails_first [\<lparr>giver = alice, receiver = bob\<rparr>, \<lparr>giver = bob, receiver = alice\<rparr>])
     = [mailOptions (JStr ''santa@example.com'') \<lparr>giver = alice, receiver = bob\<rparr>,
        mailOptions (JStr ''santa@example.com'') \<lparr>giver = bob, receiver = alice\<rparr>]"
    using inst by simp
  ultimately show ?thesis using f run by (simp only: m option.map)
qed

section \<open>Too few participants\<close>

lemma main_invokes_both:
  assumes "2 \<le> length participants"
    and "main dry_run grp YOUR_EMAIL YOUR_APP_PASSWORD participants rnd sendMail = Some trace"
  shows "ConsoleLog ''Creating assignments...'' \<in> set trace"
    and "CreateTransport YOUR_EMAIL YOUR_APP_PASSWORD \<in> set trace"
proof -
  from assms obtain assignments lines where
    c: "createAssignments dry_run grp participants rnd = Some (assignments, lines)"
    by (auto simp: main_def split: option.splits)
  have t: "\<exists>banner. trace = banner @ lines
             @ sendEmails dry_run YOUR_EMAIL YOUR_APP_PASSWORD sendMail assignments
             @ [ConsoleLog ''\<newline>All done!'']"
    using assms c by (auto simp: main_def)
  have "ConsoleLog ''Creating assignments...'' \<in> set lines"
    using createAssignments_lines(2)[OF c] .
  then show "ConsoleLog ''Creating assignments...'' \<in> set trace"
    using t by auto
  have "CreateTransport YOUR_EMAIL YOUR_APP_PASSWORD
          \<in> set (sendEmails dry_run YOUR_EMAIL YOUR_APP_PASSWORD sendMail assignments)"
    by (simp add: sendEmails_def)
  then show "CreateTransport YOUR_EMAIL YOUR_APP_PASSWORD \<in> set trace"
    using t by auto
qed

lemma single_participant_never_matched: "createAssignments d grp [p] rnd = None"
proof (rule createAssignments_rejects)
  fix n
  have "candidate [p] rnd n = [p]" by (simp add: candidate_def shuffle_def)
  then show "\<not> valid_candidate grp [p] (candidate [p] rnd n)"
    by (simp add: valid_candidate_def violation_def)
qed

text \<open>
  C8: with fewer than two participants \<^verbatim>\<open>main\<close> prints the error with
  \<^verbatim>\<open>console.error\<close> and returns; that line is the whole trace, for every flag, random
  source and transport. Neither \<^verbatim>\<open>createAssignments\<close> nor \<^verbatim>\<open>sendEmails\<close> was
  called: a run that calls them (two participants or more) shows the first line of
  \<^verbatim>\<open>createAssignments\<close> and the construction of the transport in its trace. The script
  reaches \<^verbatim>\<open>main\<close> unless it was started with \<^verbatim>\<open>--help\<close> or \<^verbatim>\<open>-h\<close>.
\<close>

theorem too_few_participants_halts:
  "(length participants < 2 \<longrightarrow>
      main dry_run grp YOUR_EMAIL YOUR_APP_PASSWORD participants rnd sendMail
        = Some [ConsoleError ''Error: You need at least 2 participants for a Secret Santa.'']
      \<and> (\<not> help_requested args \<longrightarrow>
           script args YOUR_EMAIL YOUR_APP_PASSWORD participants rnd sendMail
             = Some [ConsoleError ''Error: You need at least 2 participants for a Secret Santa.'']))
   \<and> (2 \<le> length participants
        \<and> main dry_run grp YOUR_EMAIL YOUR_APP_PASSWORD participants rnd sendMail = Some trace
      \<longrightarrow> ConsoleLog ''Creating assignments...'' \<in> set trace
          \<and> CreateTransport YOUR_EMAIL YOUR_APP_PASSWORD \<in> set trace)"
proof -
  have "main d g YOUR_EMAIL YOUR_APP_PASSWORD participants rnd sendMail
        = Some [ConsoleError ''Error: You need at least 2 participants for a Secret Santa.'']"
    if "length participants < 2" for d g
    using that by (simp add: main_def)
  then show ?thesis
    using main_invokes_both by (simp add: script_def) blast
qed

theorem too_few_participants_halts_witness:
  "length [alice] < 2
   \<and> help_requested [''--groups''] = False
   \<and> main False True JUndefined JUndefined [alice] zero_source always_resolves
       = Some [ConsoleError ''Error: You need at least 2 participants for a Secret Santa.'']
   \<and> script [''--groups''] JUndefined JUndefined [alice] zero_source always_resolves
       = Some [ConsoleError ''Error: You need at least 2 participants for a Secret Santa.'']
   \<and> main False True JUndefined JUndefined [] zero_source always_resolves
       = Some [ConsoleError ''Error: You need at least 2 participants for a Secret Santa.'']
   \<and> createAssignments False True [alice] zero_source = None
   \<and> 2 \<le> length [alice, bob]
   \<and> map_option (\<lambda>trace. ConsoleLog ''Creating assignments...'' \<in> set trace
                             \<and> CreateTransport JUndefined JUndefined \<in> set trace)
        (main False False JUndefined JUndefined [alice, bob] zero_source always_resolves)
     = Some True"
proof -
  have h: "help_requested [''--groups''] = False" by (simp add: help_requested_def)
  obtain trace where m: "main False False JUndefined JUndefined [alice, bob] zero_source
      always_resolves = Some trace"
    by (simp add: main_def example_run)
  have n: "2 \<le> length [alice, bob]" "length [alice] < 2" "length ([] :: participant list) < 2"
    by simp_all
  note one = too_few_participants_halts[where participants = "[alice]" and dry_run = False
      and grp = True and YOUR_EMAIL = JUndefined and YOUR_APP_PASSWORD = JUndefined
      and rnd = zero_source and sendMail = always_resolves and args = "[''--groups'']"]
  note none = too_few_participants_halts[where participants = "[]" and dry_run = False
      and grp = True and YOUR_EMAIL = JUndefined and YOUR_APP_PASSWORD = JUndefined
      and rnd = zero_source and sendMail = always_resolves]
  note two = too_few_participants_halts[where participants = "[alice, bob]" and dry_run = False
      and grp = False and YOUR_EMAIL = JUndefined and YOUR_APP_PASSWORD = JUndefined
      and rnd = zero_source and sendMail = always_resolves and trace = trace]
  have a: "main False True JUndefined JUndefined [alice] zero_source always_resolves
       = Some [ConsoleError ''Error: You need at least 2 participants for a Secret Santa.'']"
    and b: "script [''--groups''] JUndefined JUndefined [alice] zero_source always_resolves
       = Some [ConsoleError ''Error: You need at least 2 participants for a Secret Santa.'']"
    using one n(2) h by blast+
  have c: "main False True JUndefined JUndefined [] zero_source always_resolves
       = Some [ConsoleError ''Error: You need at least 2 participants for a Secret Santa.'']"
    using none n(3) by blast
  have d: "ConsoleLog ''Creating assignments...'' \<in> set trace"
    and e: "CreateTransport JUndefined JUndefined \<in> set trace"
    using two n(1) m by blast+
  show ?thesis
    using a b c d e h n(1,2) single_participant_never_matched[of False True alice zero_source]
    by (simp only: m option.map) simp
qed

section \<open>The shuffle is unbiased\<close>

lemma probability_Nil [simp]: "probability [] x = 0"
  by (simp add: probability_def)

lemma probability_append [simp]:
  "probability (d1 @ d2) x = probability d1 x + probability d2 x"
  by (simp add: probability_def)

lemma probability_concat_map:
  "probability (concat (map f js)) x = sum_list (map (\<lambda>j. probability (f j) x) js)"
  by (induction js) simp_all

lemma probability_scale:
  "probability (map (\<lambda>(ys, p). (ys, p / c)) d) x = probability d x / c"
  by (induction d) (auto simp: probability_def add_divide_distrib)

lemma probability_step:
  "probability (shuffle_distribution_from (Suc i) a) ys
     = sum_list (map (\<lambda>j. probability (shuffle_distribution_from i (swap a (Suc i) j)) ys
                            / real (Suc i + 1)) [0..<Suc i + 1])"
  by (simp only: shuffle_distribution_from.simps Let_def probability_concat_map probability_scale)

lemma probability_outside_support:
  "(\<And>e. e \<in> set d \<Longrightarrow> fst e \<noteq> x) \<Longrightarrow> probability d x = 0"
  by (induction d) (auto simp: probability_def)

lemma drop_swap: "i < n \<Longrightarrow> j < n \<Longrightarrow> drop n (swap a i j) = drop n a"
  by (simp add: swap_def)

lemma nth_swap_left: "i < length a \<Longrightarrow> j < length a \<Longrightarrow> swap a i j ! i = a ! j"
  by (cases "i = j") (simp_all add: swap_def)

lemma in_distribution_step:
  "(zs, p) \<in> set (shuffle_distribution_from (Suc i) a)
     \<longleftrightarrow> (\<exists>j<Suc i + 1. \<exists>p'. (zs, p') \<in> set (shuffle_distribution_from i (swap a (Suc i) j))
                              \<and> p = p' / real (Suc i + 1))"
  by (force simp del: upt_Suc simp: Let_def)

lemma distribution_support:
  "(zs, p) \<in> set (shuffle_distribution_from i a) \<Longrightarrow> i < length a
   \<Longrightarrow> mset zs = mset a \<and> drop (Suc i) zs = drop (Suc i) a"
proof (induction i arbitrary: a zs p)
  case 0
  then show ?case by simp
next
  case (Suc i)
  from Suc.prems(1) obtain j p' where j: "j < Suc i + 1"
    and m: "(zs, p') \<in> set (shuffle_distribution_from i (swap a (Suc i) j))"
    unfolding in_distribution_step by blast
  have jl: "j < length a" using j Suc.prems(2) by simp
  have "i < length (swap a (Suc i) j)" using Suc.prems(2) by simp
  from Suc.IH[OF m this]
  have z: "mset zs = mset (swap a (Suc i) j)"
    "drop (Suc i) zs = drop (Suc i) (swap a (Suc i) j)" by simp_all
  have "drop (Suc (Suc i)) zs = drop 1 (drop (Suc i) zs)" by simp
  also have "\<dots> = drop 1 (drop (Suc i) (swap a (Suc i) j))" by (simp only: z(2))
  also have "\<dots> = drop (Suc (Suc i)) (swap a (Suc i) j)" by simp
  also have "\<dots> = drop (Suc (Suc i)) a" using j by (intro drop_swap) simp_all
  finally show ?case
    using z(1) mset_swap_array[OF Suc.prems(2) jl] by simp
qed

lemma probability_zero:
  assumes "i < length a" and "drop (Suc i) ys \<noteq> drop (Suc i) a"
  shows "probability (shuffle_distribution_from i a) ys = 0"
proof (rule probability_outside_support)
  fix e assume e: "e \<in> set (shuffle_distribution_from i a)"
  obtain zs p where zp: "e = (zs, p)" by (cases e)
  from distribution_support[OF e[unfolded zp] assms(1)]
  have "drop (Suc i) zs = drop (Suc i) a" by simp
  then show "fst e \<noteq> ys" using assms(2) zp by auto
qed

lemma mset_take_of_drop:
  assumes "mset ys = mset a" and "drop n ys = drop n a"
  shows "mset (take n ys) = mset (take n a)"
proof -
  have "mset (take n ys) + mset (drop n ys) = mset (take n a) + mset (drop n a)"
    using assms(1) by (simp only: mset_append[symmetric] append_take_drop_id)
  then show ?thesis by (simp add: assms(2))
qed

lemma take_swap: "i < n \<Longrightarrow> j < n \<Longrightarrow> take n (swap a i j) = swap (take n a) i j"
  by (simp add: swap_def take_update_swap)

lemma sum_list_single:
  assumes "j0 < n"
  shows "sum_list (map (\<lambda>j. if j = j0 then (c::real) else 0) [0..<n]) = c"
proof -
  have "sum_list (map (\<lambda>j. if j = j0 then c else 0) [0..<n])
          = (\<Sum>j\<in>{0..<n}. if j = j0 then c else 0)"
    by (simp add: interv_sum_list_conv_sum_set_nat)
  also have "\<dots> = c" using assms by (simp add: sum.delta)
  finally show ?thesis .
qed

lemma uniform_from:
  assumes "i < length a" and "distinct (take (Suc i) a)"
    and "mset ys = mset a" and "drop (Suc i) ys = drop (Suc i) a"
  shows "probability (shuffle_distribution_from i a) ys = 1 / fact (Suc i)"
  using assms
proof (induction i arbitrary: a)
  case 0
  have len: "length ys = length a" using "0.prems"(3) by (rule mset_eq_length)
  obtain x xs where a: "a = x # xs" using "0.prems"(1) by (cases a) auto
  obtain y ys' where ys: "ys = y # ys'" using len a by (cases ys) auto
  have "ys' = xs" using "0.prems"(4) a ys by simp
  moreover have "y = x" using "0.prems"(3) a ys \<open>ys' = xs\<close> by simp
  ultimately have "ys = a" using a ys by simp
  then show ?case by (simp add: probability_def)
next
  case (Suc i)
  let ?n = "Suc (Suc i)"
  let ?y = "ys ! Suc i"
  have len: "length ys = length a" using Suc.prems(3) by (rule mset_eq_length)
  have tk: "mset (take ?n ys) = mset (take ?n a)"
    using Suc.prems(3,4) by (rule mset_take_of_drop)
  have "?y \<in> set (take ?n ys)"
    using Suc.prems(1) len by (simp add: in_set_conv_nth) (metis lessI nth_take)
  then have "?y \<in> set (take ?n a)" using tk by (metis set_mset_mset)
  then obtain j0 where j0: "j0 < ?n" "a ! j0 = ?y"
    using Suc.prems(1) by (auto simp: in_set_conv_nth)
  have dys: "drop (Suc i) ys = ?y # drop ?n a"
    using Suc.prems(1,4) len by (metis Cons_nth_drop_Suc)
  have db: "drop (Suc i) (swap a (Suc i) j) = a ! j # drop ?n a" if "j < ?n" for j
  proof -
    have jl: "j < length a" using that Suc.prems(1) by simp
    have "drop (Suc i) (swap a (Suc i) j)
            = swap a (Suc i) j ! Suc i # drop ?n (swap a (Suc i) j)"
      using Suc.prems(1) by (simp add: Cons_nth_drop_Suc)
    also have "swap a (Suc i) j ! Suc i = a ! j"
      using Suc.prems(1) jl by (rule nth_swap_left)
    also have "drop ?n (swap a (Suc i) j) = drop ?n a"
      using that by (intro drop_swap) simp_all
    finally show ?thesis .
  qed
  have other: "probability (shuffle_distribution_from i (swap a (Suc i) j)) ys = 0"
    if "j < ?n" "j \<noteq> j0" for j
  proof (rule probability_zero)
    show "i < length (swap a (Suc i) j)" using Suc.prems(1) by simp
    have "a ! j \<noteq> a ! j0"
    proof
      assume eq: "a ! j = a ! j0"
      have e: "take ?n a ! j = take ?n a ! j0" using that(1) j0(1) eq by simp
      have lj: "j < length (take ?n a)" and lj0: "j0 < length (take ?n a)"
        using that(1) j0(1) Suc.prems(1) by simp_all
      from nth_eq_iff_index_eq[OF Suc.prems(2) lj lj0] e have "j = j0" by blast
      then show False using that(2) by simp
    qed
    then show "drop (Suc i) ys \<noteq> drop (Suc i) (swap a (Suc i) j)"
      using dys db[OF that(1)] j0(2) by simp
  qed
  have this_one: "probability (shuffle_distribution_from i (swap a (Suc i) j0)) ys
                    = 1 / fact (Suc i)"
  proof (rule Suc.IH)
    have j0l: "j0 < length a" using j0(1) Suc.prems(1) by simp
    show "i < length (swap a (Suc i) j0)" using Suc.prems(1) by simp
    have "mset (take ?n (swap a (Suc i) j0)) = mset (take ?n a)"
      using j0(1) Suc.prems(1) by (simp add: take_swap mset_swap_array)
    then have "distinct (take ?n (swap a (Suc i) j0))"
      using Suc.prems(2) by (metis mset_eq_imp_distinct_iff)
    then have "distinct (take (Suc i) (take ?n (swap a (Suc i) j0)))"
      by (rule distinct_take)
    then show "distinct (take (Suc i) (swap a (Suc i) j0))" by (simp add: min_def)
    show "mset ys = mset (swap a (Suc i) j0)"
      using Suc.prems(3) mset_swap_array[OF Suc.prems(1) j0l] by simp
    show "drop (Suc i) ys = drop (Suc i) (swap a (Suc i) j0)"
      using dys db[OF j0(1)] j0(2) by simp
  qed
  have "probability (shuffle_distribution_from (Suc i) a) ys
          = sum_list (map (\<lambda>j. probability (shuffle_distribution_from i (swap a (Suc i) j)) ys
                            / real (Suc i + 1)) [0..<Suc i + 1])"
    by (rule probability_step)
  also have "\<dots> = sum_list (map (\<lambda>j. if j = j0 then (1 / fact (Suc i)) / real (Suc i + 1) else 0)
                              [0..<Suc i + 1])"
  proof (rule arg_cong[where f = sum_list], rule map_cong[OF refl])
    fix j assume "j \<in> set [0..<Suc i + 1]"
    then have "j < ?n" by (simp del: upt_Suc)
    then show "probability (shuffle_distribution_from i (swap a (Suc i) j)) ys / real (Suc i + 1)
                 = (if j = j0 then (1 / fact (Suc i)) / real (Suc i + 1) else 0)"
      using other this_one by simp
  qed
  also have "\<dots> = (1 / fact (Suc i)) / real (Suc i + 1)"
    using j0(1) by (intro sum_list_single) simp
  also have "\<dots> = 1 / fact (Suc (Suc i))"
    by (simp add: field_simps)
  finally show ?case .
qed

lemma weights_positive:
  "(zs, p) \<in> set (shuffle_distribution_from i a) \<Longrightarrow> 0 < p"
proof (induction i arbitrary: a zs p)
  case 0
  then show ?case by simp
next
  case (Suc i)
  from Suc.prems obtain j p' where
    "(zs, p') \<in> set (shuffle_distribution_from i (swap a (Suc i) j))"
    "p = p' / real (Suc i + 1)"
    unfolding in_distribution_step by blast
  then show ?case using Suc.IH by simp
qed

lemma probability_nonneg:
  "(\<And>e. e \<in> set d \<Longrightarrow> 0 \<le> snd e) \<Longrightarrow> 0 \<le> probability d x"
  by (induction d) (auto simp: probability_def)

lemma probability_from_nonneg: "0 \<le> probability (shuffle_distribution_from i a) ys"
proof (rule probability_nonneg)
  fix e assume "e \<in> set (shuffle_distribution_from i a)"
  then have "0 < snd e" using weights_positive[of "fst e" "snd e" i a] by simp
  then show "0 \<le> snd e" by simp
qed

lemma sum_list_lower:
  assumes "j0 < n" and "\<And>j. 0 \<le> f j"
  shows "(f j0 :: real) \<le> sum_list (map f [0..<n])"
proof -
  have "f j0 \<le> (\<Sum>j\<in>{0..<n}. f j)"
    using assms by (intro member_le_sum) simp_all
  then show ?thesis by (simp add: interv_sum_list_conv_sum_set_nat)
qed

lemma lower_bound_from:
  assumes "i < length a" and "mset ys = mset a" and "drop (Suc i) ys = drop (Suc i) a"
  shows "1 / fact (Suc i) \<le> probability (shuffle_distribution_from i a) ys"
  using assms
proof (induction i arbitrary: a)
  case 0
  have len: "length ys = length a" using "0.prems"(2) by (rule mset_eq_length)
  obtain x xs where a: "a = x # xs" using "0.prems"(1) by (cases a) auto
  obtain y ys' where ys: "ys = y # ys'" using len a by (cases ys) auto
  have "ys' = xs" using "0.prems"(3) a ys by simp
  moreover have "y = x" using "0.prems"(2) a ys \<open>ys' = xs\<close> by simp
  ultimately have "ys = a" using a ys by simp
  then show ?case by (simp add: probability_def)
next
  case (Suc i)
  let ?n = "Suc (Suc i)"
  let ?y = "ys ! Suc i"
  let ?f = "\<lambda>j. probability (shuffle_distribution_from i (swap a (Suc i) j)) ys / real (Suc i + 1)"
  have len: "length ys = length a" using Suc.prems(2) by (rule mset_eq_length)
  have tk: "mset (take ?n ys) = mset (take ?n a)"
    using Suc.prems(2,3) by (rule mset_take_of_drop)
  have "?y \<in> set (take ?n ys)"
    using Suc.prems(1) len by (simp add: in_set_conv_nth) (metis lessI nth_take)
  then have "?y \<in> set (take ?n a)" using tk by (metis set_mset_mset)
  then obtain j0 where j0: "j0 < ?n" "a ! j0 = ?y"
    using Suc.prems(1) by (auto simp: in_set_conv_nth)
  have j0l: "j0 < length a" using j0(1) Suc.prems(1) by simp
  have dys: "drop (Suc i) ys = ?y # drop ?n a"
    using Suc.prems(1,3) len by (metis Cons_nth_drop_Suc)
  have db: "drop (Suc i) (swap a (Suc i) j0) = a ! j0 # drop ?n a"
  proof -
    have "drop (Suc i) (swap a (Suc i) j0)
            = swap a (Suc i) j0 ! Suc i # drop ?n (swap a (Suc i) j0)"
      using Suc.prems(1) by (simp add: Cons_nth_drop_Suc)
    also have "swap a (Suc i) j0 ! Suc i = a ! j0"
      using Suc.prems(1) j0l by (rule nth_swap_left)
    also have "drop ?n (swap a (Suc i) j0) = drop ?n a"
      using j0(1) by (intro drop_swap) simp_all
    finally show ?thesis .
  qed
  have "1 / fact (Suc i) \<le> probability (shuffle_distribution_from i (swap a (Suc i) j0)) ys"
  proof (rule Suc.IH)
    show "i < length (swap a (Suc i) j0)" using Suc.prems(1) by simp
    show "mset ys = mset (swap a (Suc i) j0)"
      using Suc.prems(2) mset_swap_array[OF Suc.prems(1) j0l] by simp
    show "drop (Suc i) ys = drop (Suc i) (swap a (Suc i) j0)"
      using dys db j0(2) by simp
  qed
  then have "(1 / fact (Suc i)) / real (Suc i + 1) \<le> ?f j0"
    by (rule divide_right_mono) simp
  also have "?f j0 \<le> sum_list (map ?f [0..<Suc i + 1])"
    using j0(1) by (intro sum_list_lower) (simp_all add: probability_from_nonneg)
  also have "\<dots> = probability (shuffle_distribution_from (Suc i) a) ys"
    by (rule probability_step[symmetric])
  finally have bound: "(1 / fact (Suc i)) / real (Suc i + 1)
                  \<le> probability (shuffle_distribution_from (Suc i) a) ys" .
  have eq: "(1 / fact (Suc i)) / real (Suc i + 1) = (1 / fact (Suc (Suc i)) :: real)"
    by (simp add: field_simps)
  show ?case using bound unfolding eq .
qed

lemma positive_probability_in_support:
  assumes "0 < probability d x"
  shows "\<exists>p. (x, p) \<in> set d"
proof (rule ccontr)
  assume "\<not> (\<exists>p. (x, p) \<in> set d)"
  then have "probability d x = 0"
    by (intro probability_outside_support) (metis prod.collapse)
  then show False using assms by simp
qed

lemma lower_bound:
  assumes "mset ys = mset a"
  shows "1 / fact (length a) \<le> probability (shuffle_distribution a) ys"
proof (cases "a = []")
  case True
  then show ?thesis using assms by (simp add: shuffle_distribution_def probability_def)
next
  case False
  then have l: "length a - 1 < length a" by simp
  have len: "length ys = length a" using assms by (rule mset_eq_length)
  have "1 / fact (Suc (length a - 1)) \<le> probability (shuffle_distribution_from (length a - 1) a) ys"
    using l assms by (rule lower_bound_from) (simp add: len False)
  then show ?thesis using False by (simp add: shuffle_distribution_def)
qed

lemma uniform:
  assumes "distinct a" and "mset ys = mset a"
  shows "probability (shuffle_distribution a) ys = 1 / fact (length a)"
proof (cases "a = []")
  case True
  then show ?thesis using assms by (simp add: shuffle_distribution_def probability_def)
next
  case False
  then have l: "length a - 1 < length a" by simp
  have len: "length ys = length a" using assms(2) by (rule mset_eq_length)
  have "probability (shuffle_distribution_from (length a - 1) a) ys
          = 1 / fact (Suc (length a - 1))"
    using l by (rule uniform_from) (simp_all add: assms len False)
  then show ?thesis using False by (simp add: shuffle_distribution_def)
qed

lemma outside_permutations:
  assumes "mset ys \<noteq> mset a"
  shows "probability (shuffle_distribution a) ys = 0"
proof (cases "a = []")
  case True
  then show ?thesis using assms by (auto simp: shuffle_distribution_def probability_def)
next
  case False
  then have l: "length a - 1 < length a" by simp
  show ?thesis unfolding shuffle_distribution_def
  proof (rule probability_outside_support)
    fix e assume e: "e \<in> set (shuffle_distribution_from (length a - 1) a)"
    obtain zs p where zp: "e = (zs, p)" by (cases e)
    from distribution_support[OF e[unfolded zp] l] have "mset zs = mset a" by simp
    then show "fst e \<noteq> ys" using assms zp by auto
  qed
qed

lemma random_index_exact:
  assumes "j < i + 1"
  shows "random_index (real j / real (i + 1)) i = j"
proof -
  have "real j / real (i + 1) * real (i + 1) = real j" by simp
  then show ?thesis by (simp only: random_index_def) simp
qed

lemma unit_interval_update:
  assumes "unit_interval rnd" and "j < i + 1"
  shows "unit_interval (rnd(k := real j / real (i + 1)))"
  using assms by (simp add: unit_interval_def)

lemma support_reached:
  assumes "(zs, p) \<in> set (shuffle_distribution_from i a)" and "unit_interval rnd0"
  shows "\<exists>rnd. unit_interval rnd \<and> (\<forall>m<k. rnd m = rnd0 m) \<and> fst (shuffle_from i a rnd k) = zs"
  using assms
proof (induction i arbitrary: a p rnd0 k)
  case 0
  then show ?case by auto
next
  case (Suc i)
  from Suc.prems(1) obtain j p' where j: "j < Suc i + 1"
    and m: "(zs, p') \<in> set (shuffle_distribution_from i (swap a (Suc i) j))"
    unfolding in_distribution_step by blast
  let ?r = "real j / real (Suc i + 1)"
  have u: "unit_interval (rnd0(k := ?r))" using Suc.prems(2) j by (rule unit_interval_update)
  from Suc.IH[OF m u, of "Suc k"] obtain rnd where rnd: "unit_interval rnd"
    "\<forall>m<Suc k. rnd m = (rnd0(k := ?r)) m"
    "fst (shuffle_from i (swap a (Suc i) j) rnd (Suc k)) = zs"
    by blast
  have rk: "rnd k = ?r" using rnd(2) by simp
  have "random_index (rnd k) (Suc i) = j" unfolding rk using j by (rule random_index_exact)
  then have "fst (shuffle_from (Suc i) a rnd k) = zs"
    using rnd(3) by (simp add: Let_def)
  moreover have "\<forall>m<k. rnd m = rnd0 m" using rnd(2) by auto
  ultimately show ?case using rnd(1) by blast
qed

lemma shuffle_from_in_support:
  assumes "unit_interval rnd"
  shows "\<exists>p. (fst (shuffle_from i a rnd k), p) \<in> set (shuffle_distribution_from i a)"
proof (induction i arbitrary: a k)
  case 0
  then show ?case by simp
next
  case (Suc i)
  let ?j = "random_index (rnd k) (Suc i)"
  have "?j \<le> Suc i" using assms by (simp add: random_index_le unit_interval_def)
  then have j: "?j < Suc i + 1" by simp
  from Suc.IH[of "swap a (Suc i) ?j" "Suc k"] obtain p' where
    "(fst (shuffle_from i (swap a (Suc i) ?j) rnd (Suc k)), p')
       \<in> set (shuffle_distribution_from i (swap a (Suc i) ?j))" by blast
  then have "(fst (shuffle_from (Suc i) a rnd k), p' / real (Suc i + 1))
               \<in> set (shuffle_distribution_from (Suc i) a)"
    unfolding in_distribution_step using j by (auto simp: Let_def)
  then show ?case by blast
qed

lemma total_mass_scale:
  "sum_list (map snd (map (\<lambda>(ys, p). (ys, p / c)) d)) = sum_list (map snd d) / (c::real)"
  by (induction d) (auto simp: add_divide_distrib)

lemma total_mass_concat:
  "sum_list (map snd (concat (map f js))) = sum_list (map (\<lambda>j. sum_list (map snd (f j))) js)"
  by (induction js) simp_all

lemma sum_list_const: "sum_list (map (\<lambda>j. (c::real)) [0..<n]) = real n * c"
  by (induction n) (simp_all add: algebra_simps)

lemma total_mass_from: "sum_list (map snd (shuffle_distribution_from i a)) = 1"
proof (induction i arbitrary: a)
  case 0
  then show ?case by simp
next
  case (Suc i)
  have "sum_list (map snd (shuffle_distribution_from (Suc i) a))
          = sum_list (map (\<lambda>j. sum_list (map snd (map (\<lambda>(ys, p). (ys, p / real (Suc i + 1)))
                                   (shuffle_distribution_from i (swap a (Suc i) j)))))
                          [0..<Suc i + 1])"
    by (simp only: shuffle_distribution_from.simps Let_def total_mass_concat)
  also have "\<dots> = sum_list (map (\<lambda>j. 1 / real (Suc i + 1)) [0..<Suc i + 1])"
    by (simp only: total_mass_scale Suc.IH)
  also have "\<dots> = 1" by (simp only: sum_list_const) simp
  finally show ?case .
qed

lemma length_distribution_from: "length (shuffle_distribution_from i a) = fact (Suc i)"
proof (induction i arbitrary: a)
  case 0
  then show ?case by simp
next
  case (Suc i)
  have "length (shuffle_distribution_from (Suc i) a)
          = sum_list (map (\<lambda>j. length (shuffle_distribution_from i (swap a (Suc i) j)))
                          [0..<Suc i + 1])"
    by (simp only: shuffle_distribution_from.simps Let_def length_concat map_map comp_def length_map)
  also have "\<dots> = sum_list (map (\<lambda>j. fact (Suc i)) [0..<Suc i + 1])"
    by (simp only: Suc.IH)
  also have "\<dots> = (Suc i + 1) * fact (Suc i)"
    by (simp only: sum_list_triv length_upt) simp
  also have "\<dots> = fact (Suc (Suc i))" by simp
  finally show ?case .
qed

lemma shuffle_in_support:
  assumes "unit_interval rnd"
  shows "\<exists>p. (fst (shuffle a rnd k), p) \<in> set (shuffle_distribution a)"
  unfolding shuffle_def shuffle_distribution_def using assms by (rule shuffle_from_in_support)

lemma total_mass: "sum_list (map snd (shuffle_distribution a)) = 1"
  by (simp only: shuffle_distribution_def total_mass_from)

lemma length_distribution: "length (shuffle_distribution a) = fact (length a)"
proof (cases "a = []")
  case True
  then show ?thesis by (simp add: shuffle_distribution_def)
next
  case False
  then have "Suc (length a - 1) = length a" by simp
  then show ?thesis
    unfolding shuffle_distribution_def length_distribution_from by (rule arg_cong)
qed

lemma ordering_in_support:
  assumes "mset ys = mset a"
  shows "\<exists>p. (ys, p) \<in> set (shuffle_distribution a)"
proof -
  have "(0::real) < 1 / fact (length a)" by simp
  also have "\<dots> \<le> probability (shuffle_distribution a) ys"
    using assms by (rule lower_bound)
  finally have "0 < probability (shuffle_distribution a) ys" .
  then show ?thesis by (rule positive_probability_in_support)
qed

lemma ordering_reached:
  assumes "mset ys = mset a" and "unit_interval rnd0"
  shows "\<exists>rnd. unit_interval rnd \<and> (\<forall>m<k. rnd m = rnd0 m) \<and> fst (shuffle a rnd k) = ys"
proof -
  from ordering_in_support[OF assms(1)] obtain p where
    "(ys, p) \<in> set (shuffle_distribution_from (length a - 1) a)"
    unfolding shuffle_distribution_def by blast
  from support_reached[OF this assms(2)] show ?thesis
    unfolding shuffle_def .
qed

lemma draws_Suc:
  "draws rnd k (Suc i) = random_index (rnd k) (Suc i) # draws rnd (Suc k) i"
proof -
  have "[0..<Suc i] = 0 # map Suc [0..<i]"
    by (simp add: upt_conv_Cons map_Suc_upt del: upt_Suc)
  then show ?thesis
    by (simp add: draws_def comp_def del: upt_Suc)
qed

lemma shuffle_from_draws:
  "fst (shuffle_from i a rnd k) = shuffle_with_draws i a (draws rnd k i)"
proof (induction i arbitrary: a k)
  case 0
  then show ?case by simp
next
  case (Suc i)
  show ?case
    by (simp only: draws_Suc shuffle_from.simps shuffle_with_draws.simps Let_def Suc.IH)
qed

lemma distribution_from_draws:
  "shuffle_distribution_from i a
     = map (\<lambda>js. (shuffle_with_draws i a js, 1 / fact (Suc i))) (draw_sequences i)"
proof (induction i arbitrary: a)
  case 0
  then show ?case by simp
next
  case (Suc i)
  have w: "(1 / fact (Suc i)) / real (Suc i + 1) = (1 / fact (Suc (Suc i)) :: real)"
    by (simp add: field_simps)
  have "shuffle_distribution_from (Suc i) a
          = concat (map (\<lambda>j. map (\<lambda>(ys, p). (ys, p / real (Suc i + 1)))
                 (map (\<lambda>js. (shuffle_with_draws i (swap a (Suc i) j) js, 1 / fact (Suc i)))
                      (draw_sequences i)))
               [0..<Suc i + 1])"
    by (simp only: shuffle_distribution_from.simps Let_def Suc.IH)
  also have "\<dots> = concat (map (\<lambda>j. map (\<lambda>js. (shuffle_with_draws (Suc i) a (j # js),
                                               1 / fact (Suc (Suc i))))
                                      (draw_sequences i))
                            [0..<Suc i + 1])"
    by (simp only: map_map comp_def case_prod_conv w shuffle_with_draws.simps Let_def)
  also have "\<dots> = map (\<lambda>js. (shuffle_with_draws (Suc i) a js, 1 / fact (Suc (Suc i))))
                      (draw_sequences (Suc i))"
    by (simp only: draw_sequences.simps Let_def map_concat map_map comp_def)
  finally show ?case .
qed

lemma in_draw_sequences_Suc:
  "js \<in> set (draw_sequences (Suc i))
     \<longleftrightarrow> (\<exists>j tl. js = j # tl \<and> j < Suc i + 1 \<and> tl \<in> set (draw_sequences i))"
  by (force simp del: upt_Suc simp: Let_def)

lemma draws_in_sequences:
  assumes "unit_interval rnd"
  shows "draws rnd k i \<in> set (draw_sequences i)"
proof (induction i arbitrary: k)
  case 0
  then show ?case by (simp add: draws_def)
next
  case (Suc i)
  have "random_index (rnd k) (Suc i) \<le> Suc i"
    using assms by (simp add: random_index_le unit_interval_def)
  then have "random_index (rnd k) (Suc i) < Suc i + 1" by simp
  then show ?case
    unfolding draws_Suc in_draw_sequences_Suc using Suc.IH by blast
qed

lemma length_draw_sequences: "length (draw_sequences i) = fact (Suc i)"
proof -
  have "length (draw_sequences i) = length (shuffle_distribution_from i ([] :: unit list))"
    by (simp only: distribution_from_draws length_map)
  then show ?thesis by (simp only: length_distribution_from)
qed

lemma draw_sequences_nonempty: "draw_sequences i \<noteq> []"
proof
  assume "draw_sequences i = []"
  then have "length (draw_sequences i) = 0" by simp
  then show False by (simp only: length_draw_sequences) simp
qed

lemma distinct_draw_sequences: "distinct (draw_sequences i)"
proof (induction i)
  case 0
  then show ?case by simp
next
  case (Suc i)
  let ?f = "\<lambda>j. map (\<lambda>js. j # js) (draw_sequences i)"
  obtain d ds where d: "draw_sequences i = d # ds"
    using draw_sequences_nonempty[of i] by (cases "draw_sequences i") auto
  have inj: "inj ?f"
    by (rule injI) (simp add: d)
  have "distinct (concat (map ?f [0..<Suc i + 1]))"
  proof (rule distinct_concat)
    show "distinct (map ?f [0..<Suc i + 1])"
      using inj by (simp add: distinct_map inj_on_def del: upt_Suc)
    show "distinct ys" if "ys \<in> set (map ?f [0..<Suc i + 1])" for ys
      using that Suc.IH by (auto simp: distinct_map inj_on_def simp del: upt_Suc)
    show "set ys \<inter> set zs = {}"
      if "ys \<in> set (map ?f [0..<Suc i + 1])" "zs \<in> set (map ?f [0..<Suc i + 1])" "ys \<noteq> zs"
      for ys zs
      using that by (auto simp del: upt_Suc)
  qed
  then show ?case by (simp only: draw_sequences.simps Let_def)
qed

lemma distribution_draws:
  "shuffle_distribution a
     = map (\<lambda>js. (shuffle_with_draws (length a - 1) a js, 1 / fact (length a)))
           (draw_sequences (length a - 1))"
proof (cases "a = []")
  case True
  then show ?thesis by (simp add: shuffle_distribution_def)
next
  case False
  then have "Suc (length a - 1) = length a" by simp
  then show ?thesis
    unfolding shuffle_distribution_def distribution_from_draws by simp
qed

lemma shuffle_draws:
  "fst (shuffle a rnd k) = shuffle_with_draws (length a - 1) a (draws rnd k (length a - 1))"
  unfolding shuffle_def by (rule shuffle_from_draws)

text \<open>
  C4: \<^verbatim>\<open>shuffle\<close> is an unbiased Fisher-Yates shuffle. With each draw \<open>j\<close> uniform on
  \<open>0..i\<close> (and the draws independent), every ordering \<open>ys\<close> of an array of \<open>N\<close> distinct
  elements comes out with probability \<open>1 / N!\<close>; there are \<open>N!\<close> draw sequences,
  their probabilities sum to 1 and no other list comes out. The distribution is that
  of the code: each ordering is what \<^verbatim>\<open>shuffle\<close> returns for some values of
  \<^verbatim>\<open>Math.random\<close>, and whatever \<^verbatim>\<open>Math.random\<close> yields, the array \<^verbatim>\<open>shuffle\<close>
  leaves is an outcome of the distribution. More precisely, the distribution is the
  loop of \<^verbatim>\<open>shuffle\<close> run on each of the \<open>N!\<close> distinct draw sequences, each with
  weight \<open>1 / N!\<close>, and \<^verbatim>\<open>shuffle\<close> is that loop on the draws it computes from
  \<^verbatim>\<open>Math.random\<close>, which are one of these sequences.
\<close>

theorem fisher_yates_uniform:
  assumes "distinct array" and "mset ys = mset array"
  shows "probability (shuffle_distribution array) ys = 1 / fact (length array)
         \<and> (\<exists>rnd. unit_interval rnd \<and> fst (shuffle array rnd k) = ys)
         \<and> length (shuffle_distribution array) = fact (length array)
         \<and> sum_list (map snd (shuffle_distribution array)) = 1
         \<and> (\<forall>zs. mset zs \<noteq> mset array \<longrightarrow> probability (shuffle_distribution array) zs = 0)
         \<and> (\<forall>rnd. unit_interval rnd
                \<longrightarrow> (\<exists>p. (fst (shuffle array rnd k), p) \<in> set (shuffle_distribution array)))
         \<and> shuffle_distribution array
             = map (\<lambda>js. (shuffle_with_draws (length array - 1) array js,
                          1 / fact (length array)))
                   (draw_sequences (length array - 1))
         \<and> distinct (draw_sequences (length array - 1))
         \<and> (\<forall>rnd. fst (shuffle array rnd k)
                  = shuffle_with_draws (length array - 1) array
                      (draws rnd k (length array - 1)))
         \<and> (\<forall>rnd. unit_interval rnd
                \<longrightarrow> draws rnd k (length array - 1) \<in> set (draw_sequences (length array - 1)))"
proof (intro conjI allI impI)
  show "probability (shuffle_distribution array) ys = 1 / fact (length array)"
    using assms by (rule uniform)
  from ordering_reached[OF assms(2) unit_interval_zero, of k]
  show "\<exists>rnd. unit_interval rnd \<and> fst (shuffle array rnd k) = ys" by blast
  show "length (shuffle_distribution array) = fact (length array)"
    by (rule length_distribution)
  show "sum_list (map snd (shuffle_distribution array)) = 1" by (rule total_mass)
  show "probability (shuffle_distribution array) zs = 0" if "mset zs \<noteq> mset array" for zs
    using that by (rule outside_permutations)
  show "\<exists>p. (fst (shuffle array rnd k), p) \<in> set (shuffle_distribution array)"
    if "unit_interval rnd" for rnd
    using that by (rule shuffle_in_support)
  show "shuffle_distribution array
          = map (\<lambda>js. (shuffle_with_draws (length array - 1) array js,
                       1 / fact (length array)))
                (draw_sequences (length array - 1))"
    by (rule distribution_draws)
  show "distinct (draw_sequences (length array - 1))"
    by (rule distinct_draw_sequences)
  show "fst (shuffle array rnd k)
          = shuffle_with_draws (length array - 1) array (draws rnd k (length array - 1))"
    for rnd
    by (rule shuffle_draws)
  show "draws rnd k (length array - 1) \<in> set (draw_sequences (length array - 1))"
    if "unit_interval rnd" for rnd
    using that by (rule draws_in_sequences)
qed

theorem fisher_yates_uniform_witness:
  "distinct [1, 2, 3 :: nat] \<and> mset [2, 3, 1] = mset [1, 2, 3 :: nat]
   \<and> probability (shuffle_distribution [1, 2, 3 :: nat]) [2, 3, 1] = 1 / 6
   \<and> fst (shuffle [1, 2, 3 :: nat] zero_source 0) = [2, 3, 1]"
proof -
  have d: "distinct [1, 2, 3 :: nat]" by simp
  have m: "mset [2, 3, 1] = mset [1, 2, 3 :: nat]" by simp
  have f: "(fact (length [1, 2, 3 :: nat]) :: real) = 6" by (simp add: fact_numeral)
  have s: "fst (shuffle [1, 2, 3 :: nat] zero_source 0) = [2, 3, 1]"
    by (simp add: shuffle_def swap_def random_index_def zero_source_def numeral_2_eq_2)
  from fisher_yates_uniform[OF d m, of 0]
  have "probability (shuffle_distribution [1, 2, 3 :: nat]) [2, 3, 1] = 1 / 6"
    unfolding f by (rule conjunct1)
  then show ?thesis using d m s by (intro conjI)
qed

section \<open>Termination of the matcher and group exclusion\<close>









lemma returned_assignments_valid:
  assumes "createAssignments d grp ps rnd = Some (assignments, lines)"
    and "a \<in> set assignments"
  shows "\<not> violation grp (giver a) (receiver a)"
proof -
  from assms(1) obtain t where t: "retry_loop d grp ps rnd (initial_state ps) = Some t"
    and as: "assignments = map (\<lambda>i. \<lparr>giver = ps ! i, receiver = receivers t ! i\<rparr>) [0..<length ps]"
    by (cases "retry_loop d grp ps rnd (initial_state ps)") (simp_all add: createAssignments_def)
  from retry_loop_returns[OF t] obtain n where n:
    "receivers t = candidate ps rnd n" "valid_candidate grp ps (candidate ps rnd n)"
    by blast
  from assms(2) obtain i where i: "i < length ps"
    "a = \<lparr>giver = ps ! i, receiver = receivers t ! i\<rparr>"
    unfolding as by auto
  have "\<not> violation grp (ps ! i) (receivers t ! i)"
    using n(2) i(1) by (simp add: valid_candidate_def n(1))
  then show ?thesis by (simp add: i(2))
qed





lemma shuffle_four_first: "shuffle [w, x, y, z] group_source 0 = ([x, w, z, y], 3)"
  by (simp add: shuffle_def swap_def random_index_def group_source_def numeral_3_eq_3)

lemma shuffle_four_second: "shuffle [w, x, y, z] group_source 3 = ([y, z, w, x], 6)"
  by (simp add: shuffle_def swap_def random_index_def group_source_def numeral_3_eq_3)

lemma first_attempt_accepted:
  assumes "check_from False grp [w, x, y, z] [x, w, z, y] 0 = (False, [])"
  shows "createAssignments False grp [w, x, y, z] group_source
     = Some ([\<lparr>giver = w, receiver = x\<rparr>, \<lparr>giver = x, receiver = w\<rparr>,
              \<lparr>giver = y, receiver = z\<rparr>, \<lparr>giver = z, receiver = y\<rparr>],
             [ConsoleLog ''Creating assignments...'',
              ConsoleLog ''Attempt 1: Shuffling receivers...'',
              ConsoleLog ''Assignments created successfully after 1 attempt(s).''])"
proof -
  let ?s1 = "\<lparr>receivers = [x, w, z, y], hasInvalidAssignment = False, attempts = Suc 0,
              calls = 3,
              out = [ConsoleLog ''Creating assignments...'',
                     ConsoleLog ''Attempt 1: Shuffling receivers...'']\<rparr>"
  have b: "loop_body False grp [w, x, y, z] group_source (initial_state [w, x, y, z]) = ?s1"
    by (simp add: loop_body_def initial_state_def shuffle_four_first assms show_nat.simps)
  have r1: "retry_loop False grp [w, x, y, z] group_source ?s1 = Some ?s1"
    by (subst retry_loop.simps) simp
  have "retry_loop False grp [w, x, y, z] group_source (initial_state [w, x, y, z]) = Some ?s1"
    by (subst retry_loop.simps) (simp add: b r1, simp add: initial_state_def)
  then show ?thesis
    by (simp add: createAssignments_def show_nat.simps upt_rec)
qed

lemma example_run_groups_off:
  "createAssignments False False [carol, dave, alice, bob] group_source
     = Some ([\<lparr>giver = carol, receiver = dave\<rparr>, \<lparr>giver = dave, receiver = carol\<rparr>,
              \<lparr>giver = alice, receiver = bob\<rparr>, \<lparr>giver = bob, receiver = alice\<rparr>],
             [ConsoleLog ''Creating assignments...'',
              ConsoleLog ''Attempt 1: Shuffling receivers...'',
              ConsoleLog ''Assignments created successfully after 1 attempt(s).''])"
proof (rule first_attempt_accepted)
  show "check_from False False [carol, dave, alice, bob] [dave, carol, bob, alice] 0 = (False, [])"
    by (simp add: check_from.simps carol_def dave_def alice_def bob_def)
qed


lemma example_run_groups:
  "createAssignments False True [carol, dave, alice, bob] group_source
     = Some ([\<lparr>giver = carol, receiver = alice\<rparr>, \<lparr>giver = dave, receiver = bob\<rparr>,
              \<lparr>giver = alice, receiver = carol\<rparr>, \<lparr>giver = bob, receiver = dave\<rparr>],
             [ConsoleLog ''Creating assignments...'',
              ConsoleLog ''Attempt 1: Shuffling receivers...'',
              ConsoleLog ''...Group conflict: Carol (green) can't get Dave (green). Re-shuffling.'',
              ConsoleLog ''Attempt 2: Shuffling receivers...'',
              ConsoleLog ''Assignments created successfully after 2 attempt(s).''])"
proof -
  let ?ps = "[carol, dave, alice, bob]"
  have c0: "check_from False True ?ps [dave, carol, bob, alice] 0
              = (True, [ConsoleLog ''...Group conflict: Carol (green) can't get Dave (green). Re-shuffling.''])"
    by (simp add: check_from.simps carol_def dave_def)
  have c1: "check_from False True ?ps [alice, bob, carol, dave] 0 = (False, [])"
    by (simp add: check_from.simps carol_def dave_def alice_def bob_def)
  let ?s1 = "\<lparr>receivers = [dave, carol, bob, alice], hasInvalidAssignment = True,
              attempts = Suc 0, calls = 3,
              out = [ConsoleLog ''Creating assignments...'',
                     ConsoleLog ''Attempt 1: Shuffling receivers...'',
                     ConsoleLog ''...Group conflict: Carol (green) can't get Dave (green). Re-shuffling.'']\<rparr>"
  let ?s2 = "\<lparr>receivers = [alice, bob, carol, dave], hasInvalidAssignment = False,
              attempts = 2, calls = 6,
              out = [ConsoleLog ''Creating assignments...'',
                     ConsoleLog ''Attempt 1: Shuffling receivers...'',
                     ConsoleLog ''...Group conflict: Carol (green) can't get Dave (green). Re-shuffling.'',
                     ConsoleLog ''Attempt 2: Shuffling receivers...'']\<rparr>"
  have b1: "loop_body False True ?ps group_source (initial_state ?ps) = ?s1"
    by (simp add: loop_body_def initial_state_def shuffle_four_first c0 show_nat.simps)
  have b2: "loop_body False True ?ps group_source ?s1 = ?s2"
    by (simp add: loop_body_def shuffle_four_second c1 show_nat.simps)
  have r2: "retry_loop False True ?ps group_source ?s2 = Some ?s2"
    by (subst retry_loop.simps) simp
  have r1: "retry_loop False True ?ps group_source ?s1 = Some ?s2"
    by (subst retry_loop.simps) (simp add: b2 r2)
  have "retry_loop False True ?ps group_source (initial_state ?ps) = Some ?s2"
    by (subst retry_loop.simps) (simp add: b1 r1, simp add: initial_state_def)
  then show ?thesis
    by (simp add: createAssignments_def show_nat.simps upt_rec)
qed






section \<open>Flags\<close>

lemma script_flags:
  "script args YOUR_EMAIL YOUR_APP_PASSWORD participants rnd sendMail
     = (if ''--help'' \<in> set args \<or> ''-h'' \<in> set args then Some [ConsoleLog help_text]
        else main (''--dry-run'' \<in> set args \<or> ''-d'' \<in> set args)
               (''--groups'' \<in> set args \<or> ''-g'' \<in> set args)
               YOUR_EMAIL YOUR_APP_PASSWORD participants rnd sendMail)"
  by (simp add: script_def help_requested_def DRY_RUN_def groups_on_def)

lemma main_returns:
  assumes "2 \<le> length participants"
    and "main dry_run grp YOUR_EMAIL YOUR_APP_PASSWORD participants rnd sendMail = Some trace"
  shows "\<exists>assignments lines banner.
           createAssignments dry_run grp participants rnd = Some (assignments, lines)
           \<and> trace = banner @ lines
                 @ sendEmails dry_run YOUR_EMAIL YOUR_APP_PASSWORD sendMail assignments
                 @ [ConsoleLog ''\<newline>All done!'']"
proof (cases "createAssignments dry_run grp participants rnd")
  case None
  then show ?thesis using assms by (simp add: main_def)
next
  case (Some res)
  obtain assignments lines where res: "res = (assignments, lines)" by (cases res)
  show ?thesis using assms Some unfolding res by (auto simp: main_def Let_def)
qed

lemma carol_dave_never_paired:
  assumes "unit_interval rnd"
  shows "createAssignments dry_run True [carol, dave] rnd = None"
proof (rule createAssignments_rejects)
  fix n
  have "mset (candidate [carol, dave] rnd n) = mset [carol, dave]"
    using assms by (rule mset_candidate)
  then show "\<not> valid_candidate True [carol, dave] (candidate [carol, dave] rnd n)"
    using no_matching_carol_dave by blast
qed

lemma two_paired_without_groups:
  assumes "uid x \<noteq> uid y"
  shows "createAssignments False False [x, y] zero_source
     = Some ([\<lparr>giver = x, receiver = y\<rparr>, \<lparr>giver = y, receiver = x\<rparr>],
             [ConsoleLog ''Creating assignments...'',
              ConsoleLog ''Attempt 1: Shuffling receivers...'',
              ConsoleLog ''Assignments created successfully after 1 attempt(s).''])"
proof -
  let ?s1 = "\<lparr>receivers = [y, x], hasInvalidAssignment = False, attempts = Suc 0,
              calls = Suc 0,
              out = [ConsoleLog ''Creating assignments...'',
                     ConsoleLog ''Attempt 1: Shuffling receivers...'']\<rparr>"
  have c: "check_from False False [x, y] [y, x] 0 = (False, [])"
    using assms by (simp add: check_from.simps)
  have b: "loop_body False False [x, y] zero_source (initial_state [x, y]) = ?s1"
    by (simp add: loop_body_def initial_state_def shuffle_two_zero c show_nat.simps)
  have r1: "retry_loop False False [x, y] zero_source ?s1 = Some ?s1"
    by (subst retry_loop.simps) simp
  have "retry_loop False False [x, y] zero_source (initial_state [x, y]) = Some ?s1"
    by (subst retry_loop.simps) (simp add: b r1, simp add: initial_state_def)
  then show ?thesis
    by (simp add: createAssignments_def show_nat.simps upt_rec)
qed

text \<open>
  C9: group exclusion is enabled exactly when the arguments include \<^verbatim>\<open>--groups\<close> or
  \<^verbatim>\<open>-g\<close>. Unless help was asked for, the script is \<^verbatim>\<open>main\<close> with that condition
  as its group flag: a run with one of the two flags that returns took its assignments
  from \<^verbatim>\<open>createAssignments\<close> with rule 2 on, so no returned pair has equal truthy group
  labels, and with \<^verbatim>\<open>--groups\<close> or \<^verbatim>\<open>-g\<close> Carol and Dave, who share a group, are never
  paired (the run does not return). The help text advertises \<^verbatim>\<open>-g, --group-check\<close> and
  never mentions \<^verbatim>\<open>--groups\<close>, yet \<^verbatim>\<open>--group-check\<close> alone leaves group exclusion
  off: the run is \<^verbatim>\<open>main\<close> with both flags false, and it pairs Carol with Dave.
\<close>

theorem groups_flag:
  "groups_on args = (''--groups'' \<in> set args \<or> ''-g'' \<in> set args)
   \<and> groups_on [''--group-check''] = False
   \<and> sublist ''-g, --group-check'' help_text
   \<and> sublist ''--groups'' help_text = False
   \<and> script [''--group-check''] YOUR_EMAIL YOUR_APP_PASSWORD participants rnd sendMail
       = main False False YOUR_EMAIL YOUR_APP_PASSWORD participants rnd sendMail
   \<and> script args YOUR_EMAIL YOUR_APP_PASSWORD participants rnd sendMail
       = (if ''--help'' \<in> set args \<or> ''-h'' \<in> set args then Some [ConsoleLog help_text]
          else main (''--dry-run'' \<in> set args \<or> ''-d'' \<in> set args)
                 (''--groups'' \<in> set args \<or> ''-g'' \<in> set args)
                 YOUR_EMAIL YOUR_APP_PASSWORD participants rnd sendMail)
   \<and> ((''--groups'' \<in> set args \<or> ''-g'' \<in> set args)
        \<and> \<not> help_requested args \<and> 2 \<le> length participants
        \<and> script args YOUR_EMAIL YOUR_APP_PASSWORD participants rnd sendMail = Some trace
      \<longrightarrow> (\<exists>assignments lines banner.
             createAssignments (DRY_RUN args) True participants rnd = Some (assignments, lines)
             \<and> trace = banner @ lines
                   @ sendEmails (DRY_RUN args) YOUR_EMAIL YOUR_APP_PASSWORD sendMail assignments
                   @ [ConsoleLog ''\<newline>All done!'']
             \<and> (\<forall>a \<in> set assignments.
                    truthy (group_label (giver a)) \<and> truthy (group_label (receiver a))
                    \<longrightarrow> group_label (giver a) \<noteq> group_label (receiver a))))
   \<and> (unit_interval rnd
      \<longrightarrow> script [''--groups''] YOUR_EMAIL YOUR_APP_PASSWORD [carol, dave] rnd sendMail = None
          \<and> script [''-g''] YOUR_EMAIL YOUR_APP_PASSWORD [carol, dave] rnd sendMail = None)
   \<and> script [''--group-check''] YOUR_EMAIL YOUR_APP_PASSWORD [carol, dave] zero_source sendMail
       = Some ([ConsoleLog ''Creating assignments...'',
                ConsoleLog ''Attempt 1: Shuffling receivers...'',
                ConsoleLog ''Assignments created successfully after 1 attempt(s).'']
               @ sendEmails False YOUR_EMAIL YOUR_APP_PASSWORD sendMail
                   [\<lparr>giver = carol, receiver = dave\<rparr>, \<lparr>giver = dave, receiver = carol\<rparr>]
               @ [ConsoleLog ''\<newline>All done!''])"
proof -
  have c1: "groups_on args = (''--groups'' \<in> set args \<or> ''-g'' \<in> set args)"
    by (simp add: groups_on_def)
  have c2: "groups_on [''--group-check''] = False"
    by (simp add: groups_on_def)
  have c3: "sublist ''-g, --group-check'' help_text"
    by (simp add: help_text_def emoji_santa_def sublist_code(3))
  have c4: "sublist ''--groups'' help_text = False"
    by (simp add: help_text_def emoji_santa_def sublist_code(3))
  have c5: "script [''--group-check''] YOUR_EMAIL YOUR_APP_PASSWORD ps r sendMail
       = main False False YOUR_EMAIL YOUR_APP_PASSWORD ps r sendMail" for ps r
    by (simp add: script_def help_requested_def DRY_RUN_def groups_on_def)
  have c7: "\<exists>assignments lines banner.
             createAssignments (DRY_RUN args) True participants rnd = Some (assignments, lines)
             \<and> trace = banner @ lines
                   @ sendEmails (DRY_RUN args) YOUR_EMAIL YOUR_APP_PASSWORD sendMail assignments
                   @ [ConsoleLog ''\<newline>All done!'']
             \<and> (\<forall>a \<in> set assignments.
                    truthy (group_label (giver a)) \<and> truthy (group_label (receiver a))
                    \<longrightarrow> group_label (giver a) \<noteq> group_label (receiver a))"
    if f: "''--groups'' \<in> set args \<or> ''-g'' \<in> set args" and h: "\<not> help_requested args"
      and n: "2 \<le> length participants"
      and s: "script args YOUR_EMAIL YOUR_APP_PASSWORD participants rnd sendMail = Some trace"
  proof -
    have "groups_on args" using f by (simp add: groups_on_def)
    then have "main (DRY_RUN args) True YOUR_EMAIL YOUR_APP_PASSWORD participants rnd sendMail
                 = Some trace"
      using s h by (simp add: script_def)
    from main_returns[OF n this] obtain assignments lines banner where r:
      "createAssignments (DRY_RUN args) True participants rnd = Some (assignments, lines)"
      "trace = banner @ lines
                   @ sendEmails (DRY_RUN args) YOUR_EMAIL YOUR_APP_PASSWORD sendMail assignments
                   @ [ConsoleLog ''\<newline>All done!'']"
      by blast
    have "group_label (giver a) \<noteq> group_label (receiver a)"
      if "a \<in> set assignments"
        and "truthy (group_label (giver a)) \<and> truthy (group_label (receiver a))" for a
      using returned_assignments_valid[OF r(1) that(1)] that(2) by (auto simp: violation_def)
    then show ?thesis using r by blast
  qed
  have c8: "script [''--groups''] YOUR_EMAIL YOUR_APP_PASSWORD [carol, dave] rnd sendMail = None
          \<and> script [''-g''] YOUR_EMAIL YOUR_APP_PASSWORD [carol, dave] rnd sendMail = None"
    if "unit_interval rnd"
    using carol_dave_never_paired[OF that]
    by (simp add: script_def help_requested_def groups_on_def main_def)
  have u: "uid carol \<noteq> uid dave" by (simp add: carol_def dave_def)
  have c9: "script [''--group-check''] YOUR_EMAIL YOUR_APP_PASSWORD [carol, dave] zero_source sendMail
       = Some ([ConsoleLog ''Creating assignments...'',
                ConsoleLog ''Attempt 1: Shuffling receivers...'',
                ConsoleLog ''Assignments created successfully after 1 attempt(s).'']
               @ sendEmails False YOUR_EMAIL YOUR_APP_PASSWORD sendMail
                   [\<lparr>giver = carol, receiver = dave\<rparr>, \<lparr>giver = dave, receiver = carol\<rparr>]
               @ [ConsoleLog ''\<newline>All done!''])"
    unfolding c5 by (simp add: main_def two_paired_without_groups[OF u])
  show ?thesis
    using c1 c2 c3 c4 c5 script_flags c7 c8 c9 by (intro conjI impI) blast+
qed

theorem groups_flag_witness:
  "groups_on [''--groups''] \<and> groups_on [''-g'']
   \<and> help_requested [''--groups''] = False
   \<and> 2 \<le> length [carol, dave, alice, bob]
   \<and> script [''--groups''] JUndefined JUndefined [carol, dave, alice, bob] group_source
        always_resolves
     = Some ([ConsoleLog ''Creating assignments...'',
              ConsoleLog ''Attempt 1: Shuffling receivers...'',
              ConsoleLog ''...Group conflict: Carol (green) can't get Dave (green). Re-shuffling.'',
              ConsoleLog ''Attempt 2: Shuffling receivers...'',
              ConsoleLog ''Assignments created successfully after 2 attempt(s).'']
             @ sendEmails False JUndefined JUndefined always_resolves
                 [\<lparr>giver = carol, receiver = alice\<rparr>, \<lparr>giver = dave, receiver = bob\<rparr>,
                  \<lparr>giver = alice, receiver = carol\<rparr>, \<lparr>giver = bob, receiver = dave\<rparr>]
             @ [ConsoleLog ''\<newline>All done!''])
   \<and> script [''--group-check''] JUndefined JUndefined [carol, dave, alice, bob] group_source
        always_resolves
     = Some ([ConsoleLog ''Creating assignments...'',
              ConsoleLog ''Attempt 1: Shuffling receivers...'',
              ConsoleLog ''Assignments created successfully after 1 attempt(s).'']
             @ sendEmails False JUndefined JUndefined always_resolves
                 [\<lparr>giver = carol, receiver = dave\<rparr>, \<lparr>giver = dave, receiver = carol\<rparr>,
                  \<lparr>giver = alice, receiver = bob\<rparr>, \<lparr>giver = bob, receiver = alice\<rparr>]
             @ [ConsoleLog ''\<newline>All done!''])
   \<and> (\<exists>assignments lines.
          createAssignments (DRY_RUN [''--groups'']) True [carol, dave, alice, bob] group_source
            = Some (assignments, lines)
          \<and> (\<forall>a \<in> set assignments.
                 truthy (group_label (giver a)) \<and> truthy (group_label (receiver a))
                 \<longrightarrow> group_label (giver a) \<noteq> group_label (receiver a)))
   \<and> unit_interval zero_source
   \<and> script [''--groups''] JUndefined JUndefined [carol, dave] zero_source always_resolves = None
   \<and> script [''-g''] JUndefined JUndefined [carol, dave] zero_source always_resolves = None"
proof -
  note inst = groups_flag[where YOUR_EMAIL = JUndefined and YOUR_APP_PASSWORD = JUndefined
      and sendMail = always_resolves and rnd = zero_source]
  have g: "groups_on [''--groups'']" "groups_on [''-g'']"
    using inst[where args = "[''--groups'']"] inst[where args = "[''-g'']"] by simp_all
  have h: "help_requested [''--groups''] = False" by (simp add: help_requested_def)
  have n: "2 \<le> length [carol, dave, alice, bob]" by simp
  have on: "script [''--groups''] JUndefined JUndefined [carol, dave, alice, bob] group_source
        always_resolves
     = Some ([ConsoleLog ''Creating assignments...'',
              ConsoleLog ''Attempt 1: Shuffling receivers...'',
              ConsoleLog ''...Group conflict: Carol (green) can't get Dave (green). Re-shuffling.'',
              ConsoleLog ''Attempt 2: Shuffling receivers...'',
              ConsoleLog ''Assignments created successfully after 2 attempt(s).'']
             @ sendEmails False JUndefined JUndefined always_resolves
                 [\<lparr>giver = carol, receiver = alice\<rparr>, \<lparr>giver = dave, receiver = bob\<rparr>,
                  \<lparr>giver = alice, receiver = carol\<rparr>, \<lparr>giver = bob, receiver = dave\<rparr>]
             @ [ConsoleLog ''\<newline>All done!''])"
    by (simp add: script_def help_requested_def DRY_RUN_def groups_on_def main_def
          example_run_groups)
  have off: "script [''--group-check''] JUndefined JUndefined [carol, dave, alice, bob]
        group_source always_resolves
     = Some ([ConsoleLog ''Creating assignments...'',
              ConsoleLog ''Attempt 1: Shuffling receivers...'',
              ConsoleLog ''Assignments created successfully after 1 attempt(s).'']
             @ sendEmails False JUndefined JUndefined always_resolves
                 [\<lparr>giver = carol, receiver = dave\<rparr>, \<lparr>giver = dave, receiver = carol\<rparr>,
                  \<lparr>giver = alice, receiver = bob\<rparr>, \<lparr>giver = bob, receiver = alice\<rparr>]
             @ [ConsoleLog ''\<newline>All done!''])"
    by (simp add: script_def help_requested_def DRY_RUN_def groups_on_def main_def
          example_run_groups_off)
  from inst[where args = "[''--groups'']"] unit_interval_zero
  have never: "script [''--groups''] JUndefined JUndefined [carol, dave] zero_source
                 always_resolves = None
          \<and> script [''-g''] JUndefined JUndefined [carol, dave] zero_source always_resolves = None"
    by blast
  have f: "''--groups'' \<in> set [''--groups''] \<or> ''-g'' \<in> set [''--groups'']"
    and nh: "\<not> help_requested [''--groups'']"
    using h by simp_all
  from groups_flag[where args = "[''--groups'']" and YOUR_EMAIL = JUndefined
      and YOUR_APP_PASSWORD = JUndefined and sendMail = always_resolves and rnd = group_source
      and participants = "[carol, dave, alice, bob]"] f nh n on
  have ex: "\<exists>assignments lines.
          createAssignments (DRY_RUN [''--groups'']) True [carol, dave, alice, bob] group_source
            = Some (assignments, lines)
          \<and> (\<forall>a \<in> set assignments.
                 truthy (group_label (giver a)) \<and> truthy (group_label (receiver a))
                 \<longrightarrow> group_label (giver a) \<noteq> group_label (receiver a))"
    by blast
  show ?thesis
    using g h n on off ex unit_interval_zero never by (intro conjI) simp_all
qed

end
